theory Spec2Isabelle
  imports Main "HOL-Library.Word"
begin

unbundle bit_operations_syntax

section \<open>A WebSocket client: handshake and frame codec (websocket.c)\<close>

text \<open>
  The development embeds the functions of \<^verbatim>\<open>websocket.c\<close> as HOL functions and proves
  what the frame codec and the handshake do. The model fixes an LP64 little-endian
  platform: \<^verbatim>\<open>size_t\<close> and \<^verbatim>\<open>uint64_t\<close> are 64-bit words, \<^verbatim>\<open>int\<close> is a 32-bit word,
  and a load or store through a cast pointer
  (\<^verbatim>\<open>*(uint16_t *)buf\<close>) reads or writes the least significant byte first. A statement
  about a \<^verbatim>\<open>size_t\<close> value below \<open>2 ^ 32\<close> is also one about a platform whose \<^verbatim>\<open>size_t\<close>
  has 32 bits, as a comment in \<^verbatim>\<open>websocket_send\<close> assumes.

  A C \<^verbatim>\<open>int\<close> is a 32-bit word throughout, also where it counts bytes: the results of the
  transport calls, \<^verbatim>\<open>ret\<close> and \<^verbatim>\<open>nwrite\<close>. Its arithmetic wraps around (as the platform's
  does where C leaves signed overflow undefined); \<open>sint\<close> reads it as the signed value,
  and the conversion of an \<^verbatim>\<open>int\<close> to \<^verbatim>\<open>uint64_t\<close> is the sign extension \<open>scast\<close>.
\<close>

subsection \<open>Machine types\<close>

type_synonym byte = "8 word"
type_synonym uint16_t = "16 word"
type_synonym uint32_t = "32 word"
type_synonym uint64_t = "64 word"
type_synonym size_t = "64 word"
type_synonym c_int = "32 word"

subsection \<open>Memory access and byte order on the little-endian host\<close>

text \<open>\<^verbatim>\<open>*(uint16_t *)p\<close>, \<^verbatim>\<open>*(uint32_t *)p\<close>, \<^verbatim>\<open>*(uint64_t *)p\<close> as loads: the byte at the
  lowest address is the least significant one.\<close>

definition load_u16 :: "byte list \<Rightarrow> uint16_t" where
  "load_u16 p = word_cat (p ! 1) (p ! 0)"

definition load_u32 :: "byte list \<Rightarrow> uint32_t" where
  "load_u32 p = word_cat (load_u16 (drop 2 p)) (load_u16 p)"

definition load_u64 :: "byte list \<Rightarrow> uint64_t" where
  "load_u64 p = word_cat (load_u32 (drop 4 p)) (load_u32 p)"

text \<open>The same pointers as stores: the bytes written, lowest address first.\<close>

definition store_u16 :: "uint16_t \<Rightarrow> byte list" where
  "store_u16 x = [ucast x, ucast (drop_bit 8 x)]"

definition store_u32 :: "uint32_t \<Rightarrow> byte list" where
  "store_u32 x = store_u16 (ucast x) @ store_u16 (ucast (drop_bit 16 x))"

text \<open>\<^verbatim>\<open>ntohs\<close>, \<^verbatim>\<open>ntohl\<close>, \<^verbatim>\<open>htons\<close>, \<^verbatim>\<open>htonl\<close> of \<^verbatim>\<open>arpa/inet.h\<close>: on a little-endian
  host each one reverses the bytes of its argument. The 32-bit swap exchanges the two
  halves and swaps the bytes of each.\<close>

definition ntohs :: "uint16_t \<Rightarrow> uint16_t" where
  "ntohs x = push_bit 8 x OR drop_bit 8 x"

definition ntohl :: "uint32_t \<Rightarrow> uint32_t" where
  "ntohl x = push_bit 16 (ucast (ntohs (ucast x))) OR ucast (ntohs (ucast (drop_bit 16 x)))"

definition htons :: "uint16_t \<Rightarrow> uint16_t" where
  "htons x = ntohs x"

definition htonl :: "uint32_t \<Rightarrow> uint32_t" where
  "htonl x = ntohl x"

text \<open>Big-endian (network order) reading of a byte sequence, as a number: the yardstick
  the decoded and encoded lengths are compared with.\<close>

fun be_nat :: "byte list \<Rightarrow> nat" where
  "be_nat [] = 0"
| "be_nat (b # bs) = unat b * 256 ^ length bs + be_nat bs"

subsection \<open>Errors\<close>

text \<open>Every failing path of the C code prints a message and returns \<^verbatim>\<open>-1\<close>. The model
  names the failure by the place it comes from.\<close>

datatype error =
    NetReadError                \<comment> \<open>\<^verbatim>\<open>net_read\<close> or \<^verbatim>\<open>net_readn\<close> returned \<^verbatim>\<open>-1\<close>\<close>
  | NetWriteError               \<comment> \<open>\<^verbatim>\<open>net_write\<close> returned \<^verbatim>\<open>-1\<close>\<close>
  | Base64Error                 \<comment> \<open>\<^verbatim>\<open>mbedtls_base64_encode\<close> failed\<close>
  | EncodingError               \<comment> \<open>\<^verbatim>\<open>snprintf\<close> result out of the buffer's bounds\<close>
  | HandshakeRejected           \<comment> \<open>"request failed, invalid status"\<close>
  | MissingAcceptHeader         \<comment> \<open>"the required Sec-WebSocket-Accept was not found"\<close>
  | AcceptMismatch              \<comment> \<open>"Sec-WebSocket-Accept verification failed"\<close>
  | ReservedBitSet              \<comment> \<open>"RSVx reserved field, must be 0"\<close>
  | UnsupportedFragmentation    \<comment> \<open>"no support continuation frame"\<close>

subsection \<open>The transport\<close>

text \<open>
  Modelled from the spec: \<^verbatim>\<open>net_read\<close>, \<^verbatim>\<open>net_readn\<close> and \<^verbatim>\<open>net_write\<close> are declared in a
  header that is not among the sources. The spec gives their contract:
  \<^verbatim>\<open>read(handle, buffer, max)\<close> returns the bytes read, short reads permitted;
  \<^verbatim>\<open>read_exactly(handle, buffer, n)\<close> returns \<open>n\<close> bytes or fails;
  \<^verbatim>\<open>write(handle, buffer, n)\<close> returns the bytes written. The C functions return an
  \<^verbatim>\<open>int\<close>: the count converted to \<^verbatim>\<open>int\<close>, or \<^verbatim>\<open>-1\<close>.

  The connection is the byte stream the peer has sent and that is still unread (\<open>rx\<close>),
  the log of the buffers handed to \<^verbatim>\<open>net_write\<close>, one entry per call (\<open>tx\<close>), the log of
  the sizes asked of \<^verbatim>\<open>net_readn\<close>, one entry per call (\<open>rd\<close>), and the number of writes
  the connection still accepts before it breaks (\<open>wr_left\<close>). A read fails when the stream
  ends before the request is served. \<open>None\<close> is the result \<^verbatim>\<open>-1\<close> of a call that failed.
  The reads return the bytes stored in the caller's buffer; the \<^verbatim>\<open>int\<close> that the caller
  receives is their number converted to \<^verbatim>\<open>int\<close>, written out where the caller uses it.
\<close>

record net_t =
  rx :: "byte list"
  tx :: "byte list list"
  rd :: "nat list"
  wr_left :: nat

definition net_readn :: "net_t \<Rightarrow> nat \<Rightarrow> byte list option \<times> net_t" where
  "net_readn nt n =
     (if n \<le> length (rx nt)
      then (Some (take n (rx nt)), nt\<lparr>rx := drop n (rx nt), rd := rd nt @ [n]\<rparr>)
      else (None, nt\<lparr>rx := [], rd := rd nt @ [n]\<rparr>))"

definition net_read :: "net_t \<Rightarrow> nat \<Rightarrow> byte list option \<times> net_t" where
  "net_read nt n =
     (if rx nt = [] then (None, nt)
      else (Some (take n (rx nt)), nt\<lparr>rx := drop n (rx nt)\<rparr>))"

definition net_write :: "net_t \<Rightarrow> byte list \<Rightarrow> c_int option \<times> net_t" where
  "net_write nt bs =
     (if wr_left nt = 0 then (None, nt)
      else (Some (of_nat (length bs)), nt\<lparr>tx := tx nt @ [bs], wr_left := wr_left nt - 1\<rparr>))"

subsection \<open>The connection and the frame header\<close>

text \<open>
  Modelled from the spec: \<^verbatim>\<open>websocket_t\<close> is declared in \<^verbatim>\<open>websocket.h\<close>, which is not among
  the sources. The spec's connection owns the transport handle and the counter
  \<open>remaining\<close>, the number of payload bytes of the current inbound frame not yet
  consumed; these are the two members the code uses, \<^verbatim>\<open>net\<close> and \<^verbatim>\<open>remaining\<close>. The code
  assigns \<^verbatim>\<open>remaining\<close> the \<^verbatim>\<open>uint64_t\<close> payload length and casts it to \<^verbatim>\<open>size_t\<close>, so it
  is taken as a \<^verbatim>\<open>uint64_t\<close>. \<^verbatim>\<open>struct frame_hdr\<close> is the one of \<^verbatim>\<open>websocket.c\<close>.
\<close>

record websocket_t =
  net :: net_t
  remaining :: uint64_t

record frame_hdr =
  fin :: byte
  opcode :: byte
  mask_flag :: byte   \<comment> \<open>the member \<^verbatim>\<open>mask\<close>\<close>
  len :: uint64_t

definition FRAME_FIN :: byte where "FRAME_FIN = push_bit 7 1"
definition FRAME_RSV1 :: byte where "FRAME_RSV1 = push_bit 6 1"
definition FRAME_RSV2 :: byte where "FRAME_RSV2 = push_bit 5 1"
definition FRAME_RSV3 :: byte where "FRAME_RSV3 = push_bit 4 1"
definition FRAME_OPCODE :: byte where "FRAME_OPCODE = 0xf"
definition FRAME_MASK :: byte where "FRAME_MASK = push_bit 7 1"

subsection \<open>The random source\<close>

text \<open>
  Modelled from the spec: \<^verbatim>\<open>xrand\<close> is not among the sources. The spec's random source
  is \<^verbatim>\<open>next_byte() -> u8\<close>, an unsigned value. The functions that call \<^verbatim>\<open>xrand\<close> take the
  sequence of its results as a parameter: \<open>rnd i\<close> is what the \<open>i\<close>-th call made by the
  function returns, a natural number (of any width). \<open>rand_byte\<close> is the expression
  \<^verbatim>\<open>xrand() % 0xff\<close> stored in an \<^verbatim>\<open>unsigned char\<close>.
\<close>

definition rand_byte :: "nat \<Rightarrow> byte" where
  "rand_byte x = of_nat (x mod 0xff)"

subsection \<open>Frame header decoding\<close>

text \<open>
  \<^verbatim>\<open>websocket_read_frame_hdr\<close> (lines 234 to 295). Each read returns the bytes that the C
  function finds at the start of its local \<^verbatim>\<open>buf\<close>. In the macros \<^verbatim>\<open><<\<close> binds tighter
  than \<^verbatim>\<open>&\<close> and \<^verbatim>\<open>|\<close>, so that \<^verbatim>\<open>buf[0] & FRAME_FIN\<close> is \<^verbatim>\<open>buf[0] & 128\<close> and the
  reserved-bit test masks with \<^verbatim>\<open>0x70\<close>. The result is the header (\<open>Inl\<close> for \<^verbatim>\<open>-1\<close>) and
  the connection after the reads.
\<close>

definition websocket_read_frame_hdr :: "websocket_t \<Rightarrow> (error + frame_hdr) \<times> websocket_t" where
  "websocket_read_frame_hdr ws =
     (case net_readn (net ws) 2 of
        (None, n1) \<Rightarrow> (Inl NetReadError, ws\<lparr>net := n1\<rparr>)
      | (Some buf, n1) \<Rightarrow>
          if (buf ! 0) AND (FRAME_RSV1 OR FRAME_RSV2 OR FRAME_RSV3) \<noteq> 0
          then (Inl ReservedBitSet, ws\<lparr>net := n1\<rparr>)
          else
            let h = \<lparr>fin = (buf ! 0) AND FRAME_FIN, opcode = (buf ! 0) AND FRAME_OPCODE,
                     mask_flag = (buf ! 1) AND FRAME_MASK, len = ucast ((buf ! 1) AND 0x7f)\<rparr>
            in if len h = 126 then
                 (case net_readn n1 2 of
                    (None, n2) \<Rightarrow> (Inl NetReadError, ws\<lparr>net := n2\<rparr>)
                  | (Some b2, n2) \<Rightarrow>
                      (Inr (h\<lparr>len := ucast (ntohs (load_u16 b2))\<rparr>), ws\<lparr>net := n2\<rparr>))
               else if len h = 127 then
                 (case net_readn n1 8 of
                    (None, n2) \<Rightarrow> (Inl NetReadError, ws\<lparr>net := n2\<rparr>)
                  | (Some b8, n2) \<Rightarrow>
                      (Inr (h\<lparr>len :=
                              push_bit 32 (ucast (ntohl (ucast (load_u64 b8 AND 0xffffffff))))
                              OR ucast (ntohl (ucast (drop_bit 32 (load_u64 b8))))\<rparr>),
                       ws\<lparr>net := n2\<rparr>))
               else (Inr h, ws\<lparr>net := n1\<rparr>))"

subsection \<open>Draining the unread rest of a frame\<close>

lemma net_readn_length: "net_readn nt n = (Some bs, n1) \<Longrightarrow> length bs = n"
  by (auto simp: net_readn_def split: if_splits)

lemma skip_chunk_decreases:
  fixes r :: uint64_t
  assumes "0 < r"
  shows "unat (r - of_nat (unat (if r > 1024 then 1024 else r))) < unat r"
proof (cases "r > 1024")
  case True
  then have "unat (r - 1024) = unat r - 1024"
    by (simp add: unat_sub word_le_nat_alt word_less_nat_alt)
  moreover have "1024 < unat r" using True by (simp add: word_less_nat_alt)
  ultimately show ?thesis using True by simp
next
  case False
  then show ?thesis using assms by (simp add: word_less_nat_alt)
qed

text \<open>The loop of \<^verbatim>\<open>websocket_skip_remaining\<close>: while \<^verbatim>\<open>remaining > 0\<close>, read
  \<^verbatim>\<open>min(remaining, sizeof(buf))\<close> bytes into the 1024-byte scratch buffer and subtract the
  count returned. The count is at most 1024, so that its passage through \<^verbatim>\<open>int ret\<close> changes
  nothing and \<^verbatim>\<open>ret\<close> is never \<^verbatim>\<open>-1\<close> after a read that succeeded.\<close>

function websocket_skip_remaining :: "websocket_t \<Rightarrow> (error + c_int) \<times> websocket_t" where
  "websocket_skip_remaining ws =
     (if remaining ws > 0 then
        (case net_readn (net ws)
                (unat (if remaining ws > 1024 then 1024 else remaining ws)) of
           (None, n1) \<Rightarrow> (Inl NetReadError, ws\<lparr>net := n1\<rparr>)
         | (Some bs, n1) \<Rightarrow>
             websocket_skip_remaining
               (ws\<lparr>net := n1, remaining := remaining ws - of_nat (length bs)\<rparr>))
      else (Inr 0, ws))"
  by pat_completeness auto
termination websocket_skip_remaining
  apply (relation "measure (\<lambda>ws. unat (remaining ws))")
   apply simp
  apply (simp only: in_measure)
  subgoal for ws x y x2
    using skip_chunk_decreases [of "remaining ws"]
      net_readn_length [of "net ws" "unat (if 1024 < remaining ws then 1024 else remaining ws)" x2 y]
    by simp
  done

declare websocket_skip_remaining.simps [simp del]

subsection \<open>Receiving a frame\<close>

text \<open>
  \<^verbatim>\<open>websocket_recv(ws, type, buf, n)\<close>. The caller's objects are part of the result: \<open>type\<close>
  is \<open>None\<close> for a null pointer and \<open>Some v\<close> for a pointer to an \<^verbatim>\<open>int\<close> holding \<open>v\<close>;
  \<open>buf\<close> is the content of the caller's buffer, of which the call may overwrite the first
  \<open>n\<close> bytes. The result is the value returned (\<open>Inl\<close> for \<^verbatim>\<open>-1\<close>), the connection, and the
  caller's \<open>type\<close> and \<open>buf\<close> after the call. The mask key is read from the transport into
  the local \<^verbatim>\<open>mask_key\<close>, which no later statement reads. A read that fails leaves the
  caller's buffer as it was. The number of payload bytes read reaches the code as
  \<^verbatim>\<open>int ret\<close>: \<open>ret\<close> is that number converted to \<^verbatim>\<open>int\<close>, the test \<^verbatim>\<open>ret == -1\<close> is made on
  it, it is the value returned, and \<^verbatim>\<open>ws->remaining -= ret\<close> subtracts its sign extension.
  For fewer than \<open>2 ^ 31\<close> bytes \<open>ret\<close> is their number.
\<close>

definition websocket_recv ::
  "websocket_t \<Rightarrow> c_int option \<Rightarrow> byte list \<Rightarrow> size_t
     \<Rightarrow> (error + c_int) \<times> websocket_t \<times> c_int option \<times> byte list" where
  "websocket_recv ws type buf n =
     (case (if remaining ws > 0 then websocket_skip_remaining ws else (Inr 0, ws)) of
        (Inl e, ws1) \<Rightarrow> (Inl e, ws1, type, buf)
      | (Inr _, ws1) \<Rightarrow>
         (case websocket_read_frame_hdr ws1 of
            (Inl e, ws2) \<Rightarrow> (Inl e, ws2, type, buf)
          | (Inr hdr, ws2) \<Rightarrow>
              if fin hdr = 0 then (Inl UnsupportedFragmentation, ws2, type, buf)
              else
                let type' = (case type of None \<Rightarrow> None | Some _ \<Rightarrow> Some (ucast (opcode hdr)));
                    ws3 = ws2\<lparr>remaining := len hdr\<rparr>
                in (case (if mask_flag hdr \<noteq> 0 then net_readn (net ws3) 4
                          else (Some [], net ws3)) of
                      (None, n4) \<Rightarrow> (Inl NetReadError, ws3\<lparr>net := n4\<rparr>, type', buf)
                    | (Some mask_key, n4) \<Rightarrow>
                        (case net_readn n4
                                (unat (if n > remaining ws3 then remaining ws3 else n)) of
                           (None, n5) \<Rightarrow> (Inl NetReadError, ws3\<lparr>net := n5\<rparr>, type', buf)
                         | (Some data, n5) \<Rightarrow>
                             let ret = (of_nat (length data) :: c_int)
                             in if ret = - 1
                                then (Inl NetReadError, ws3\<lparr>net := n5\<rparr>, type',
                                      data @ drop (length data) buf)
                                else (Inr ret,
                                      ws3\<lparr>net := n5, remaining := remaining ws3 - scast ret\<rparr>,
                                      type',
                                      data @ drop (length data) buf)))))"

subsection \<open>Sending a frame\<close>

text \<open>The header that \<^verbatim>\<open>websocket_send\<close> builds before the mask key (lines 389 to 411):
  \<^verbatim>\<open>header[0]\<close>, \<^verbatim>\<open>header[1]\<close> and the extended length, \<^verbatim>\<open>len\<close> bytes of the zeroed
  14-byte array.\<close>

definition send_header :: "c_int \<Rightarrow> size_t \<Rightarrow> byte list" where
  "send_header type n =
     (let h0 = FRAME_FIN OR ucast type; h1 = FRAME_MASK
      in if n \<le> 125 then [h0, h1 OR ucast n]
         else if n \<le> 0xffff then [h0, h1 OR 126] @ store_u16 (htons (ucast n))
         else [h0, h1 OR 127] @ store_u32 (htonl 0)
                @ store_u32 (htonl (ucast (n AND 0xffffffff))))"

text \<open>The mask key (lines 413 to 418): four bytes \<^verbatim>\<open>(uint8_t)(xrand() % 0xff)\<close>.\<close>

definition send_mask_key :: "(nat \<Rightarrow> nat) \<Rightarrow> byte list" where
  "send_mask_key rnd = map (\<lambda>i. rand_byte (rnd i)) [0..<4]"

text \<open>The payload loop (lines 430 to 443). \<open>payload\<close> is the filled part of the 2048-byte
  array, \<open>i\<close> the index, which stays below \<open>n < 2 ^ 64\<close>, so that \<^verbatim>\<open>i + 1\<close> does not
  wrap. \<open>nwrite\<close> is the \<^verbatim>\<open>int\<close> that \<^verbatim>\<open>nwrite += ret\<close> accumulates: it wraps around once
  \<open>2 ^ 31\<close> bytes have been written. A write hands over at most 2048 bytes, so the \<^verbatim>\<open>int\<close>
  it returns is \<^verbatim>\<open>-1\<close> only when it failed.\<close>

function send_loop ::
  "byte list \<Rightarrow> byte list \<Rightarrow> nat \<Rightarrow> nat \<Rightarrow> byte list \<Rightarrow> c_int \<Rightarrow> net_t
     \<Rightarrow> (error + c_int) \<times> net_t" where
  "send_loop ptr mask_key n i payload nwrite nt =
     (if i < n then
        (if length (payload @ [(ptr ! i) XOR (mask_key ! (i mod 4))]) < 2048 \<and> i + 1 < n
         then send_loop ptr mask_key n (i + 1)
                (payload @ [(ptr ! i) XOR (mask_key ! (i mod 4))]) nwrite nt
         else (case net_write nt (payload @ [(ptr ! i) XOR (mask_key ! (i mod 4))]) of
                 (None, nt') \<Rightarrow> (Inl NetWriteError, nt')
               | (Some ret, nt') \<Rightarrow> send_loop ptr mask_key n (i + 1) [] (nwrite + ret) nt'))
      else (Inr nwrite, nt))"
  by pat_completeness auto
termination
  by (relation "measure (\<lambda>(ptr, mask_key, n, i, payload, nwrite, nt). n - i)") auto

declare send_loop.simps [simp del]

text \<open>\<^verbatim>\<open>websocket_send(ws, type, buf, n)\<close>: \<open>ptr\<close> is the content of the caller's buffer, of
  which the call reads the first \<open>n\<close> bytes.\<close>

definition websocket_send ::
  "websocket_t \<Rightarrow> (nat \<Rightarrow> nat) \<Rightarrow> c_int \<Rightarrow> byte list \<Rightarrow> size_t
     \<Rightarrow> (error + c_int) \<times> websocket_t" where
  "websocket_send ws rnd type ptr n =
     (let mask_key = send_mask_key rnd;
          header = send_header type n @ mask_key
      in case net_write (net ws) header of
           (None, n1) \<Rightarrow> (Inl NetWriteError, ws\<lparr>net := n1\<rparr>)
         | (Some _, n1) \<Rightarrow>
             (case send_loop ptr mask_key (unat n) 0 [] 0 n1 of
                (r, n2) \<Rightarrow> (r, ws\<lparr>net := n2\<rparr>)))"

subsection \<open>The opening handshake\<close>

text \<open>C strings and string literals as bytes: \<open>cstr\<close> is what \<^verbatim>\<open>%s\<close> and \<^verbatim>\<open>strstr\<close> see of
  a buffer, its bytes up to the first NUL. \<open>strstr\<close> gives the offset of the first
  occurrence, \<open>None\<close> for a null pointer.\<close>

definition bytes_of :: "string \<Rightarrow> byte list" where
  "bytes_of s = map of_char s"

definition cstr :: "byte list \<Rightarrow> byte list" where
  "cstr b = takeWhile (\<lambda>c. c \<noteq> 0) b"

fun strstr :: "byte list \<Rightarrow> byte list \<Rightarrow> nat option" where
  "strstr [] needle = (if needle = [] then Some 0 else None)"
| "strstr (c # cs) needle =
     (if take (length needle) (c # cs) = needle then Some 0
      else map_option Suc (strstr cs needle))"

definition WEBSOCKET_VERSION :: string where
  "WEBSOCKET_VERSION = ''13''"

definition WEBSOCKET_GUID :: string where
  "WEBSOCKET_GUID = ''258EAFA5-E914-47DA-95CA-C5AB0DC85B11''"

definition crlf :: string where
  "crlf = [CHR 0x0D, CHR 0x0A]"

definition status_line :: "byte list" where
  "status_line = bytes_of ''HTTP/1.1 101 Switching Protocols''"

text \<open>
  \<^verbatim>\<open>mbedtls_base64_encode\<close> and the SHA-1 functions belong to a library, not to this
  repository; the functions that call them take them as parameters. \<open>b64 dlen src\<close> is
  the text written to a destination of \<open>dlen\<close> bytes, \<open>None\<close> when the call fails;
  \<open>sha1 msg\<close> is the 20-byte digest.
\<close>

text \<open>The nonce of \<^verbatim>\<open>generate_websocket_key\<close> (lines 49 and 50): the 16 bytes of \<^verbatim>\<open>tmp\<close>,
  each \<^verbatim>\<open>xrand() % 0xff\<close>.\<close>

definition key_nonce :: "(nat \<Rightarrow> nat) \<Rightarrow> byte list" where
  "key_nonce rnd = map (\<lambda>i. rand_byte (rnd i)) [0..<16]"

definition generate_websocket_key ::
  "(nat \<Rightarrow> byte list \<Rightarrow> byte list option) \<Rightarrow> (nat \<Rightarrow> nat) \<Rightarrow> nat \<Rightarrow> error + byte list" where
  "generate_websocket_key b64 rnd sz =
     (case b64 sz (key_nonce rnd) of None \<Rightarrow> Inl Base64Error | Some key \<Rightarrow> Inr key)"

definition generate_websocket_accept ::
  "(nat \<Rightarrow> byte list \<Rightarrow> byte list option) \<Rightarrow> (byte list \<Rightarrow> byte list) \<Rightarrow> byte list
     \<Rightarrow> error + byte list" where
  "generate_websocket_accept b64 sha1 ws_key =
     (let buf = cstr ws_key @ bytes_of WEBSOCKET_GUID
      in if length buf = 0 \<or> length buf \<ge> 256 then Inl EncodingError
         else case b64 128 (sha1 buf) of None \<Rightarrow> Inl Base64Error | Some ac \<Rightarrow> Inr ac)"

text \<open>The request that \<^verbatim>\<open>snprintf\<close> formats (lines 117 to 121).\<close>

definition handshake_request :: "string \<Rightarrow> string \<Rightarrow> byte list \<Rightarrow> byte list" where
  "handshake_request path host ws_key =
     bytes_of (''GET '' @ path @ '' HTTP/1.1'' @ crlf @ ''Host: '' @ host @ crlf
               @ ''Upgrade: websocket'' @ crlf @ ''Connection: Upgrade'' @ crlf
               @ ''Sec-WebSocket-Key: '')
     @ cstr ws_key
     @ bytes_of (crlf @ ''Sec-WebSocket-Version: '' @ WEBSOCKET_VERSION @ crlf @ crlf)"

text \<open>
  \<^verbatim>\<open>websocket_handshake\<close>. The response is read into the zeroed 4096-byte \<^verbatim>\<open>buf\<close>, at most
  4095 bytes of it. The last \<^verbatim>\<open>memcmp\<close> compares as many bytes as the accept key has; where
  that range would leave the buffer, the model's comparison fails.
\<close>

definition websocket_handshake ::
  "(nat \<Rightarrow> byte list \<Rightarrow> byte list option) \<Rightarrow> (byte list \<Rightarrow> byte list) \<Rightarrow> (nat \<Rightarrow> nat)
     \<Rightarrow> websocket_t \<Rightarrow> string \<Rightarrow> string \<Rightarrow> (error + c_int) \<times> websocket_t" where
  "websocket_handshake b64 sha1 rnd ws host path =
     (case generate_websocket_key b64 rnd 128 of
        Inl e \<Rightarrow> (Inl e, ws)
      | Inr ws_key \<Rightarrow>
          let req = handshake_request path host ws_key
          in if length req = 0 \<or> length req \<ge> 4096 then (Inl EncodingError, ws)
             else
               (case net_write (net ws) req of
                  (None, n1) \<Rightarrow> (Inl NetWriteError, ws\<lparr>net := n1\<rparr>)
                | (Some _, n1) \<Rightarrow>
                    (case net_read n1 4095 of
                       (None, n2) \<Rightarrow> (Inl NetReadError, ws\<lparr>net := n2\<rparr>)
                     | (Some resp, n2) \<Rightarrow>
                         let buf = resp @ replicate (4096 - length resp) 0
                         in if take 32 buf \<noteq> status_line
                            then (Inl HandshakeRejected, ws\<lparr>net := n2\<rparr>)
                            else
                              (case generate_websocket_accept b64 sha1 ws_key of
                                 Inl e \<Rightarrow> (Inl e, ws\<lparr>net := n2\<rparr>)
                               | Inr ac_key \<Rightarrow>
                                   (case strstr (cstr buf) (bytes_of ''Sec-WebSocket-Accept: '') of
                                      None \<Rightarrow> (Inl MissingAcceptHeader, ws\<lparr>net := n2\<rparr>)
                                    | Some pos \<Rightarrow>
                                        if take (length ac_key) (drop (pos + 22) buf) \<noteq> ac_key
                                        then (Inl AcceptMismatch, ws\<lparr>net := n2\<rparr>)
                                        else (Inr 0, ws\<lparr>net := n2\<rparr>))))))"

subsection \<open>Yardsticks\<close>

text \<open>What the code is measured against in the properties below. None of these is a function
  of \<^verbatim>\<open>websocket.c\<close>.\<close>

text \<open>The number of extended-length bytes that the second header byte announces, and the
  payload length that it and those bytes encode.\<close>

definition ext_len :: "byte \<Rightarrow> nat" where
  "ext_len b1 = (if b1 AND 0x7f = 126 then 2 else if b1 AND 0x7f = 127 then 8 else 0)"

definition frame_len :: "byte \<Rightarrow> byte list \<Rightarrow> uint64_t" where
  "frame_len b1 rest =
     (if b1 AND 0x7f = 126 then of_nat (be_nat (take 2 rest))
      else if b1 AND 0x7f = 127 then of_nat (be_nat (take 8 rest))
      else ucast (b1 AND 0x7f))"

text \<open>The sizes of the reads that drain \<open>r\<close> bytes through a 1024-byte buffer, and the
  connection once the unread rest of the last frame has been drained.\<close>

definition skip_sizes :: "nat \<Rightarrow> nat list" where
  "skip_sizes r = replicate (r div 1024) 1024 @ (if r mod 1024 = 0 then [] else [r mod 1024])"

definition drained :: "websocket_t \<Rightarrow> websocket_t" where
  "drained ws =
     ws\<lparr>net := (net ws)\<lparr>rx := drop (unat (remaining ws)) (rx (net ws)),
                         rd := rd (net ws) @ skip_sizes (unat (remaining ws))\<rparr>,
        remaining := 0\<rparr>"

text \<open>The payload masked byte by byte with the key indexed by the absolute position, and a
  byte sequence cut into consecutive pieces of \<open>k\<close> bytes, the last one possibly shorter.\<close>

definition masked :: "byte list \<Rightarrow> byte list \<Rightarrow> nat \<Rightarrow> nat \<Rightarrow> byte list" where
  "masked mask_key ptr i n = map (\<lambda>j. (ptr ! j) XOR (mask_key ! (j mod 4))) [i..<n]"

function chunks_of :: "nat \<Rightarrow> 'a list \<Rightarrow> 'a list list" where
  "chunks_of k xs = (if k = 0 \<or> xs = [] then [] else take k xs # chunks_of k (drop k xs))"
  by pat_completeness auto
termination
  by (relation "measure (\<lambda>(k, xs). length xs)") auto

declare chunks_of.simps [simp del]

text \<open>The mock transport of a round trip: what has been written to the connection comes
  back as the stream to read.\<close>

definition loopback :: "websocket_t \<Rightarrow> websocket_t" where
  "loopback ws = ws\<lparr>net := (net ws)\<lparr>rx := rx (net ws) @ concat (tx (net ws)), tx := []\<rparr>\<rparr>"

section \<open>Properties\<close>

subsection \<open>Byte order\<close>

lemma uint_word_cat:
  fixes a :: "'a::len word" and b :: "'b::len word"
  assumes "LENGTH('a) + LENGTH('b) \<le> LENGTH('c::len)"
  shows "uint (word_cat a b :: 'c word) = uint a * 2 ^ LENGTH('b) + uint b"
proof -
  let ?z = "uint a * 2 ^ LENGTH('b) + uint b"
  have "?z < (uint a + 1) * 2 ^ LENGTH('b)"
    by (simp add: distrib_right)
  also have "\<dots> \<le> 2 ^ LENGTH('a) * 2 ^ LENGTH('b)"
  proof (rule mult_right_mono)
    show "uint a + 1 \<le> 2 ^ LENGTH('a)"
      using uint_lt2p [of a] by linarith
  qed simp
  also have "\<dots> \<le> 2 ^ LENGTH('c)"
    using assms by (simp flip: power_add)
  finally have lt: "?z < 2 ^ LENGTH('c)" .
  have ge: "0 \<le> ?z" by simp
  have "concat_bit LENGTH('b) (uint b) (uint a) = ?z"
    by (simp add: concat_bit_eq push_bit_eq_mult take_bit_int_eq_self mult.commute)
  then have "uint (word_cat a b :: 'c word) = uint (word_of_int ?z :: 'c word)"
    by (simp only: word_cat_eq')
  also have "\<dots> = take_bit LENGTH('c) ?z"
    by (rule uint_word_of_int_eq)
  also have "\<dots> = ?z"
    using ge lt by (rule take_bit_int_eq_self)
  finally show ?thesis .
qed

lemma unat_word_cat:
  fixes a :: "'a::len word" and b :: "'b::len word"
  assumes "LENGTH('a) + LENGTH('b) \<le> LENGTH('c::len)"
  shows "unat (word_cat a b :: 'c word) = unat a * 2 ^ LENGTH('b) + unat b"
proof -
  have "int (unat (word_cat a b :: 'c word)) = int (unat a * 2 ^ LENGTH('b) + unat b)"
    using uint_word_cat [OF assms, of a b] by simp
  then show ?thesis by (rule int_int_eq [THEN iffD1])
qed

lemma low_cat8: "(ucast (word_cat (a::byte) (b::byte) :: uint16_t) :: byte) = b"
  by (rule bit_word_eqI) (auto simp: bit_simps)

lemma high_cat8: "(ucast (drop_bit 8 (word_cat (a::byte) (b::byte) :: uint16_t)) :: byte) = a"
  by (rule bit_word_eqI) (auto simp: bit_simps)

lemma low_cat16: "(ucast (word_cat (a::uint16_t) (b::uint16_t) :: uint32_t) :: uint16_t) = b"
  by (rule bit_word_eqI) (auto simp: bit_simps)

lemma high_cat16:
  "(ucast (drop_bit 16 (word_cat (a::uint16_t) (b::uint16_t) :: uint32_t)) :: uint16_t) = a"
  by (rule bit_word_eqI) (auto simp: bit_simps)

lemma low_cat32: "(ucast (word_cat (a::uint32_t) (b::uint32_t) :: uint64_t) :: uint32_t) = b"
  by (rule bit_word_eqI) (auto simp: bit_simps)

lemma high_cat32:
  "(ucast (drop_bit 32 (word_cat (a::uint32_t) (b::uint32_t) :: uint64_t)) :: uint32_t) = a"
  by (rule bit_word_eqI) (auto simp: bit_simps)

lemma split16: "word_cat (ucast (drop_bit 8 x) :: byte) (ucast x :: byte) = (x :: uint16_t)"
  by (rule bit_word_eqI) (auto simp: bit_simps)

lemma split32:
  "word_cat (ucast (drop_bit 16 x) :: uint16_t) (ucast x :: uint16_t) = (x :: uint32_t)"
  by (rule bit_word_eqI) (auto simp: bit_simps)

lemma low32_mask: "(ucast (x AND 0xffffffff :: uint64_t) :: uint32_t) = ucast x"
proof -
  have m: "(0xffffffff :: uint64_t) = mask 32"
    by (simp add: mask_eq_exp_minus_1)
  have "(ucast (x AND mask 32 :: uint64_t) :: uint32_t) = ucast x"
    by (rule bit_word_eqI) (auto simp: bit_simps)
  then show ?thesis
    by (simp only: m)
qed

lemma ntohs_cat: "ntohs (word_cat (a::byte) (b::byte)) = word_cat b a"
  unfolding ntohs_def
  by (rule bit_word_eqI) (auto simp: bit_simps dest: bit_imp_le_length)

lemma ntohl_cat:
  "ntohl (word_cat (a::uint16_t) (b::uint16_t)) = word_cat (ntohs b) (ntohs a)"
  unfolding ntohl_def low_cat16 high_cat16
  by (simp add: word_cat_eq_push_bit_or)

lemma store_u16_cat: "store_u16 (word_cat (a::byte) (b::byte)) = [b, a]"
  by (simp add: store_u16_def low_cat8 high_cat8)

lemma store_u32_cat:
  "store_u32 (word_cat (a::uint16_t) (b::uint16_t)) = store_u16 b @ store_u16 a"
  by (simp add: store_u32_def low_cat16 high_cat16)

lemma be_nat_append: "be_nat (xs @ ys) = be_nat xs * 256 ^ length ys + be_nat ys"
  by (induction xs) (simp_all add: algebra_simps power_add)

text \<open>Decoding: a 16-bit load followed by \<open>ntohs\<close> reads the two bytes in network order.\<close>

lemma ntohs_load_u16: "unat (ntohs (load_u16 [a, b])) = be_nat [a, b]"
  by (simp add: load_u16_def ntohs_cat unat_word_cat)

lemma ntohl_load_u32: "unat (ntohl (load_u32 [a, b, c, d])) = be_nat [a, b, c, d]"
  by (simp add: load_u32_def load_u16_def ntohl_cat ntohs_cat unat_word_cat)

lemma decode_len64:
  "unat (push_bit 32 (ucast (ntohl (ucast (load_u64 [a, b, c, d, e, f, g, h] AND 0xffffffff))))
         OR (ucast (ntohl (ucast (drop_bit 32 (load_u64 [a, b, c, d, e, f, g, h])))) :: uint64_t))
   = be_nat [a, b, c, d, e, f, g, h]"
proof -
  let ?lo = "load_u32 [a, b, c, d]" and ?hi = "load_u32 [e, f, g, h]"
  have l: "load_u64 [a, b, c, d, e, f, g, h] = word_cat ?hi ?lo"
    by (simp add: load_u64_def load_u32_def load_u16_def)
  have "push_bit 32 (ucast (ntohl ?lo)) OR (ucast (ntohl ?hi) :: uint64_t)
        = word_cat (ntohl ?lo) (ntohl ?hi)"
    by (simp add: word_cat_eq_push_bit_or)
  then show ?thesis
    unfolding l low32_mask low_cat32 high_cat32
    using be_nat_append [of "[a, b, c, d]" "[e, f, g, h]"]
    by (simp add: unat_word_cat ntohl_load_u32)
qed

text \<open>Encoding: \<open>htons\<close> followed by a 16-bit store writes the bytes in network order.\<close>

lemma store_htons: "store_u16 (htons x) = [ucast (drop_bit 8 x), ucast x]"
proof -
  have "store_u16 (htons (word_cat (ucast (drop_bit 8 x) :: byte) (ucast x :: byte)))
        = [ucast (drop_bit 8 x), ucast x]"
    by (simp only: htons_def ntohs_cat store_u16_cat)
  then show ?thesis by (simp only: split16)
qed

lemma be_nat_store_htons: "be_nat (store_u16 (htons x)) = unat x"
proof -
  have "unat (word_cat (ucast (drop_bit 8 x) :: byte) (ucast x :: byte) :: uint16_t)
        = be_nat [ucast (drop_bit 8 x), ucast x]"
    by (simp add: unat_word_cat)
  then show ?thesis by (simp only: split16 store_htons)
qed

lemma store_htonl:
  "store_u32 (htonl x) = store_u16 (htons (ucast (drop_bit 16 x))) @ store_u16 (htons (ucast x))"
proof -
  have "store_u32 (htonl (word_cat (ucast (drop_bit 16 x) :: uint16_t) (ucast x :: uint16_t)))
        = store_u16 (htons (ucast (drop_bit 16 x))) @ store_u16 (htons (ucast x))"
    by (simp only: htonl_def htons_def ntohl_cat store_u32_cat)
  then show ?thesis by (simp only: split32)
qed

lemma length_store_u16: "length (store_u16 x) = 2"
  by (simp add: store_u16_def)

lemma length_store_u32: "length (store_u32 x) = 4"
  by (simp add: store_u32_def store_u16_def)

lemma be_nat_store_htonl: "be_nat (store_u32 (htonl x)) = unat x"
proof -
  have "unat (word_cat (ucast (drop_bit 16 x) :: uint16_t) (ucast x :: uint16_t) :: uint32_t)
        = be_nat (store_u32 (htonl x))"
    by (simp add: unat_word_cat store_htonl be_nat_append be_nat_store_htons length_store_u16)
  then show ?thesis by (simp only: split32)
qed

lemma store_htonl_0: "store_u32 (htonl 0) = [0, 0, 0, 0]"
  by (simp add: store_htonl store_htons)

subsection \<open>Frame header decoding\<close>

lemma rsv_bits:
  "((b::byte) AND (FRAME_RSV1 OR FRAME_RSV2 OR FRAME_RSV3) \<noteq> 0) = (bit b 4 \<or> bit b 5 \<or> bit b 6)"
proof -
  have "(b AND (push_bit 6 1 OR push_bit 5 1 OR push_bit 4 1) = 0)
        = (\<not> bit b 6 \<and> \<not> bit b 5 \<and> \<not> bit b 4)"
    by (simp only: push_bit_of_1 bit.conj_disj_distrib or_eq_0_iff and_exp_eq_0_iff_not_bit)
  then show ?thesis
    unfolding FRAME_RSV1_def FRAME_RSV2_def FRAME_RSV3_def by blast
qed

lemma unat_ucast_up:
  fixes w :: "'a::len word"
  assumes "LENGTH('a) \<le> LENGTH('b::len)"
  shows "unat (ucast w :: 'b word) = unat w"
proof -
  have "unat w < 2 ^ LENGTH('a)" by simp
  also have "(2::nat) ^ LENGTH('a) \<le> 2 ^ LENGTH('b)"
    using assms by (simp add: power_increasing)
  finally show ?thesis
    by (simp add: unsigned_ucast_eq take_bit_nat_eq_self)
qed

lemma unat_byte_less: "unat (b::byte) < 256"
  using unsigned_less [of b, where 'a = nat] by simp

lemma word_eq_of_nat: "unat (x::'a::len word) = n \<Longrightarrow> x = of_nat n"
  by (metis of_nat_unat ucast_id)

lemma len7_le: "(ucast ((b::byte) AND 0x7f) :: uint64_t) \<le> 127"
proof -
  have "unat (b AND 0x7f) \<le> unat (0x7f :: byte)"
    by (rule word_and_le1 [THEN word_le_nat_alt [THEN iffD1]])
  then have "unat (ucast (b AND 0x7f) :: uint64_t) \<le> 127"
    by (simp add: unat_ucast_up)
  then show ?thesis
    by (simp add: word_le_nat_alt)
qed

lemma list2: "length xs = 2 \<Longrightarrow> \<exists>a b. xs = [a, b]"
  by (auto simp: eval_nat_numeral length_Suc_conv)

lemma list8: "length xs = 8 \<Longrightarrow> \<exists>a b c d e f g h. xs = [a, b, c, d, e, f, g, h]"
  by (auto simp: eval_nat_numeral length_Suc_conv)

lemma be_nat_bound: "be_nat bs < 256 ^ length bs"
proof (induction bs)
  case Nil
  show ?case by simp
next
  case (Cons b bs)
  have "unat b < 256" by (rule unat_byte_less)
  then have "unat b * 256 ^ length bs + be_nat bs < (unat b + 1) * 256 ^ length bs"
    using Cons by simp
  also have "\<dots> \<le> 256 * 256 ^ length bs"
    using \<open>unat b < 256\<close> by (intro mult_right_mono) simp_all
  finally show ?case by simp
qed

lemma decode16_word: "length bs = 2 \<Longrightarrow> (ucast (ntohs (load_u16 bs)) :: uint64_t) = of_nat (be_nat bs)"
proof -
  assume "length bs = 2"
  then obtain a b where bs: "bs = [a, b]" using list2 by blast
  have "unat (ucast (ntohs (load_u16 bs)) :: uint64_t) = be_nat bs"
    unfolding bs by (simp add: unat_ucast_up ntohs_load_u16)
  then show ?thesis
    by (rule word_eq_of_nat)
qed

lemma decode64_word:
  "length bs = 8 \<Longrightarrow>
   push_bit 32 (ucast (ntohl (ucast (load_u64 bs AND 0xffffffff))))
     OR (ucast (ntohl (ucast (drop_bit 32 (load_u64 bs)))) :: uint64_t) = of_nat (be_nat bs)"
proof -
  assume "length bs = 8"
  then obtain a b c d e f g h where bs: "bs = [a, b, c, d, e, f, g, h]" using list8 by blast
  show ?thesis
    unfolding bs using decode_len64 [of a b c d e f g h]
    by (rule word_eq_of_nat)
qed

lemma unat_of_nat_be_nat8: "length bs = 8 \<Longrightarrow> unat (of_nat (be_nat bs) :: uint64_t) = be_nat bs"
  using be_nat_bound [of bs] by (simp add: unat_of_nat)

lemma unat_of_nat_be_nat2: "length bs = 2 \<Longrightarrow> unat (of_nat (be_nat bs) :: uint64_t) = be_nat bs"
  using be_nat_bound [of bs] by (simp add: unat_of_nat)

lemma frame_consts:
  "FRAME_FIN = 0x80" "FRAME_MASK = 0x80" "FRAME_OPCODE = 0xf"
  by (simp_all add: FRAME_FIN_def FRAME_MASK_def FRAME_OPCODE_def)

lemma net_readn_enough:
  "n \<le> length (rx nt) \<Longrightarrow>
   net_readn nt n = (Some (take n (rx nt)), nt\<lparr>rx := drop n (rx nt), rd := rd nt @ [n]\<rparr>)"
  by (simp add: net_readn_def)

text \<open>
  C6. Whenever the transport delivers the two bytes of a frame header and any of bits 4, 5
  or 6 of the first byte is set, \<open>websocket_read_frame_hdr\<close> fails with
  \<open>ReservedBitSet\<close>: no header is returned, whatever the other bits of the first byte
  (fin, opcode) and the second byte (mask, length) are. The two bytes have been consumed.
\<close>

theorem reserved_bit_rejected:
  assumes "rx (net ws) = b0 # b1 # rest"
    and "bit b0 4 \<or> bit b0 5 \<or> bit b0 6"
  shows "websocket_read_frame_hdr ws =
           (Inl ReservedBitSet, ws\<lparr>net := (net ws)\<lparr>rx := rest, rd := rd (net ws) @ [2]\<rparr>\<rparr>)"
proof -
  have "net_readn (net ws) 2
        = (Some [b0, b1], (net ws)\<lparr>rx := rest, rd := rd (net ws) @ [2]\<rparr>)"
    using assms(1) by (simp add: net_readn_def)
  moreover have "b0 AND (FRAME_RSV1 OR FRAME_RSV2 OR FRAME_RSV3) \<noteq> 0"
    using assms(2) by (simp only: rsv_bits)
  ultimately show ?thesis
    by (simp add: websocket_read_frame_hdr_def)
qed

theorem reserved_bit_rejected_witness:
  "websocket_read_frame_hdr
     \<lparr>net = \<lparr>rx = [0xC1, 0x05, 1, 2, 3, 4, 5], tx = [], rd = [], wr_left = 0\<rparr>, remaining = 0\<rparr>
   = (Inl ReservedBitSet,
      \<lparr>net = \<lparr>rx = [1, 2, 3, 4, 5], tx = [], rd = [2], wr_left = 0\<rparr>, remaining = 0\<rparr>)"
  using reserved_bit_rejected
    [of "\<lparr>net = \<lparr>rx = [0xC1, 0x05, 1, 2, 3, 4, 5], tx = [], rd = [], wr_left = 0\<rparr>,
          remaining = 0\<rparr>" "0xC1" "0x05" "[1, 2, 3, 4, 5]"]
  by simp

subsection \<open>Decoded headers\<close>

lemma ucast_byte_eq_numeral:
  "((ucast (x::byte) :: uint64_t) = 126) = (x = 126)"
  "((ucast (x::byte) :: uint64_t) = 127) = (x = 127)"
proof -
  have u: "unat (ucast x :: uint64_t) = unat x"
    by (intro unat_ucast_up) simp
  show "((ucast x :: uint64_t) = 126) = (x = 126)"
    using u by (simp add: word_unat_eq_iff)
  show "((ucast x :: uint64_t) = 127) = (x = 127)"
    using u by (simp add: word_unat_eq_iff)
qed

lemma read_frame_hdr_small:
  assumes "rx (net ws) = b0 # b1 # rest"
    and "\<not> bit b0 4 \<and> \<not> bit b0 5 \<and> \<not> bit b0 6"
    and "(ucast (b1 AND 0x7f) :: uint64_t) \<noteq> 126"
    and "(ucast (b1 AND 0x7f) :: uint64_t) \<noteq> 127"
  shows "websocket_read_frame_hdr ws
      = (Inr \<lparr>fin = b0 AND 0x80, opcode = b0 AND 0xf, mask_flag = b1 AND 0x80,
               len = ucast (b1 AND 0x7f)\<rparr>,
         ws\<lparr>net := (net ws)\<lparr>rx := rest, rd := rd (net ws) @ [2]\<rparr>\<rparr>)"
proof -
  have rd2: "net_readn (net ws) 2
             = (Some [b0, b1], (net ws)\<lparr>rx := rest, rd := rd (net ws) @ [2]\<rparr>)"
    using assms(1) by (simp add: net_readn_def)
  have rsv: "b0 AND (FRAME_RSV1 OR FRAME_RSV2 OR FRAME_RSV3) = 0"
    using assms(2) rsv_bits [of b0] by blast
  show ?thesis
    using assms(3,4) by (simp add: websocket_read_frame_hdr_def rd2 rsv frame_consts Let_def)
qed

lemma read_frame_hdr_126:
  assumes "rx (net ws) = b0 # b1 # rest"
    and "\<not> bit b0 4 \<and> \<not> bit b0 5 \<and> \<not> bit b0 6"
    and "(ucast (b1 AND 0x7f) :: uint64_t) = 126" and "2 \<le> length rest"
  shows "websocket_read_frame_hdr ws
      = (Inr \<lparr>fin = b0 AND 0x80, opcode = b0 AND 0xf, mask_flag = b1 AND 0x80,
               len = of_nat (be_nat (take 2 rest))\<rparr>,
         ws\<lparr>net := (net ws)\<lparr>rx := drop 2 rest, rd := rd (net ws) @ [2, 2]\<rparr>\<rparr>)"
proof -
  let ?n1 = "(net ws)\<lparr>rx := rest, rd := rd (net ws) @ [2]\<rparr>"
  have rd2: "net_readn (net ws) 2 = (Some [b0, b1], ?n1)"
    using assms(1) by (simp add: net_readn_def)
  have rsv: "b0 AND (FRAME_RSV1 OR FRAME_RSV2 OR FRAME_RSV3) = 0"
    using assms(2) rsv_bits [of b0] by blast
  have "net_readn ?n1 2
        = (Some (take 2 rest), ?n1\<lparr>rx := drop 2 rest, rd := rd (net ws) @ [2, 2]\<rparr>)"
    using assms(4) by (simp add: net_readn_def)
  moreover have "(ucast (ntohs (load_u16 (take 2 rest))) :: uint64_t)
                 = of_nat (be_nat (take 2 rest))"
    using assms(4) by (intro decode16_word) simp
  ultimately show ?thesis
    using assms(3) by (simp add: websocket_read_frame_hdr_def rd2 rsv frame_consts Let_def)
qed

lemma read_frame_hdr_127:
  assumes "rx (net ws) = b0 # b1 # rest"
    and "\<not> bit b0 4 \<and> \<not> bit b0 5 \<and> \<not> bit b0 6"
    and "(ucast (b1 AND 0x7f) :: uint64_t) = 127" and "8 \<le> length rest"
  shows "websocket_read_frame_hdr ws
      = (Inr \<lparr>fin = b0 AND 0x80, opcode = b0 AND 0xf, mask_flag = b1 AND 0x80,
               len = of_nat (be_nat (take 8 rest))\<rparr>,
         ws\<lparr>net := (net ws)\<lparr>rx := drop 8 rest, rd := rd (net ws) @ [2, 8]\<rparr>\<rparr>)"
proof -
  let ?n1 = "(net ws)\<lparr>rx := rest, rd := rd (net ws) @ [2]\<rparr>"
  have rd2: "net_readn (net ws) 2 = (Some [b0, b1], ?n1)"
    using assms(1) by (simp add: net_readn_def)
  have rsv: "b0 AND (FRAME_RSV1 OR FRAME_RSV2 OR FRAME_RSV3) = 0"
    using assms(2) rsv_bits [of b0] by blast
  have "net_readn ?n1 8
        = (Some (take 8 rest), ?n1\<lparr>rx := drop 8 rest, rd := rd (net ws) @ [2, 8]\<rparr>)"
    using assms(4) by (simp add: net_readn_def)
  moreover have "push_bit 32 (ucast (ntohl (ucast (load_u64 (take 8 rest) AND 0xffffffff))))
                 OR (ucast (ntohl (ucast (drop_bit 32 (load_u64 (take 8 rest))))) :: uint64_t)
                 = of_nat (be_nat (take 8 rest))"
    using assms(4) by (intro decode64_word) simp
  ultimately show ?thesis
    using assms(3) by (simp add: websocket_read_frame_hdr_def rd2 rsv frame_consts Let_def)
qed

text \<open>The three cases as one: a well-formed header whose bytes the transport delivers is
  decoded, and exactly its bytes are consumed.\<close>

lemma read_frame_hdr_ok:
  assumes "rx (net ws) = b0 # b1 # rest"
    and "\<not> bit b0 4 \<and> \<not> bit b0 5 \<and> \<not> bit b0 6"
    and "ext_len b1 \<le> length rest"
  shows "websocket_read_frame_hdr ws
      = (Inr \<lparr>fin = b0 AND 0x80, opcode = b0 AND 0xf, mask_flag = b1 AND 0x80,
               len = frame_len b1 rest\<rparr>,
         ws\<lparr>net := (net ws)\<lparr>rx := drop (ext_len b1) rest,
                             rd := rd (net ws) @ 2 # (if ext_len b1 = 0 then [] else [ext_len b1])\<rparr>\<rparr>)"
proof (cases "b1 AND 0x7f = 126")
  case True
  then show ?thesis
    using read_frame_hdr_126 [OF assms(1,2)] assms(3)
    by (simp add: ext_len_def frame_len_def ucast_byte_eq_numeral)
next
  case n126: False
  show ?thesis
  proof (cases "b1 AND 0x7f = 127")
    case True
    then show ?thesis
      using read_frame_hdr_127 [OF assms(1,2)] assms(3)
      by (simp add: ext_len_def frame_len_def ucast_byte_eq_numeral)
  next
    case False
    then show ?thesis
      using read_frame_hdr_small [OF assms(1,2)] n126
      by (simp add: ext_len_def frame_len_def ucast_byte_eq_numeral)
  qed
qed

text \<open>
  C4. When the transport delivers the two header bytes \<open>b0\<close>, \<open>b1\<close> with the reserved
  bits clear, and \<open>L\<close> is the low 7 bits of \<open>b1\<close>: if \<open>L \<le> 125\<close> the payload length is
  \<open>L\<close>; if \<open>L = 126\<close> and two more bytes arrive, the payload length is those two bytes
  read as a big-endian number; if \<open>L = 127\<close> and eight more bytes arrive, the payload
  length is those eight bytes read as a big-endian number. In each case the header is
  returned with the fin, opcode and mask fields of the two bytes, and exactly the header's
  bytes have been consumed.
\<close>

theorem payload_length_decoding:
  assumes "rx (net ws) = b0 # b1 # rest"
    and "\<not> bit b0 4 \<and> \<not> bit b0 5 \<and> \<not> bit b0 6"
  shows
    "(let L = (ucast (b1 AND 0x7f) :: uint64_t);
          h = \<lparr>fin = b0 AND 0x80, opcode = b0 AND 0xf, mask_flag = b1 AND 0x80, len = L\<rparr>;
          n1 = (net ws)\<lparr>rx := rest, rd := rd (net ws) @ [2]\<rparr>
      in (L \<le> 125 \<longrightarrow> websocket_read_frame_hdr ws = (Inr h, ws\<lparr>net := n1\<rparr>))
       \<and> (L = 126 \<and> 2 \<le> length rest \<longrightarrow>
            websocket_read_frame_hdr ws
            = (Inr (h\<lparr>len := of_nat (be_nat (take 2 rest))\<rparr>),
               ws\<lparr>net := n1\<lparr>rx := drop 2 rest, rd := rd (net ws) @ [2, 2]\<rparr>\<rparr>)
            \<and> unat (of_nat (be_nat (take 2 rest)) :: uint64_t) = be_nat (take 2 rest))
       \<and> (L = 127 \<and> 8 \<le> length rest \<longrightarrow>
            websocket_read_frame_hdr ws
            = (Inr (h\<lparr>len := of_nat (be_nat (take 8 rest))\<rparr>),
               ws\<lparr>net := n1\<lparr>rx := drop 8 rest, rd := rd (net ws) @ [2, 8]\<rparr>\<rparr>)
            \<and> unat (of_nat (be_nat (take 8 rest)) :: uint64_t) = be_nat (take 8 rest)))"
proof -
  have small: "websocket_read_frame_hdr ws
      = (Inr \<lparr>fin = b0 AND 0x80, opcode = b0 AND 0xf, mask_flag = b1 AND 0x80,
               len = ucast (b1 AND 0x7f)\<rparr>,
         ws\<lparr>net := (net ws)\<lparr>rx := rest, rd := rd (net ws) @ [2]\<rparr>\<rparr>)"
    if "(ucast (b1 AND 0x7f) :: uint64_t) \<le> 125"
  proof -
    from that have "(ucast (b1 AND 0x7f) :: uint64_t) \<noteq> 126"
      and "(ucast (b1 AND 0x7f) :: uint64_t) \<noteq> 127"
      by auto
    then show ?thesis
      by (rule read_frame_hdr_small [OF assms])
  qed
  have u2: "unat (of_nat (be_nat (take 2 rest)) :: uint64_t) = be_nat (take 2 rest)"
    if "2 \<le> length rest"
    using that by (intro unat_of_nat_be_nat2) simp
  have u8: "unat (of_nat (be_nat (take 8 rest)) :: uint64_t) = be_nat (take 8 rest)"
    if "8 \<le> length rest"
    using that by (intro unat_of_nat_be_nat8) simp
  show ?thesis
    unfolding Let_def
    using small read_frame_hdr_126 [OF assms] read_frame_hdr_127 [OF assms] u2 u8 by simp
qed

theorem payload_length_decoding_witness:
  "websocket_read_frame_hdr
     \<lparr>net = \<lparr>rx = [0x81, 0x05, 1, 2, 3, 4, 5], tx = [], rd = [], wr_left = 0\<rparr>, remaining = 0\<rparr>
   = (Inr \<lparr>fin = 0x80, opcode = 1, mask_flag = 0, len = 5\<rparr>,
      \<lparr>net = \<lparr>rx = [1, 2, 3, 4, 5], tx = [], rd = [2], wr_left = 0\<rparr>, remaining = 0\<rparr>)
   \<and> websocket_read_frame_hdr
     \<lparr>net = \<lparr>rx = [0x82, 0x7E, 0x01, 0x02, 9, 9], tx = [], rd = [], wr_left = 0\<rparr>, remaining = 0\<rparr>
   = (Inr \<lparr>fin = 0x80, opcode = 2, mask_flag = 0, len = 258\<rparr>,
      \<lparr>net = \<lparr>rx = [9, 9], tx = [], rd = [2, 2], wr_left = 0\<rparr>, remaining = 0\<rparr>)
   \<and> websocket_read_frame_hdr
     \<lparr>net = \<lparr>rx = [0x82, 0xFF, 0, 0, 0, 0, 0, 1, 0, 3, 9], tx = [], rd = [], wr_left = 0\<rparr>,
      remaining = 0\<rparr>
   = (Inr \<lparr>fin = 0x80, opcode = 2, mask_flag = 0x80, len = 65539\<rparr>,
      \<lparr>net = \<lparr>rx = [9], tx = [], rd = [2, 8], wr_left = 0\<rparr>, remaining = 0\<rparr>)"
  using
    payload_length_decoding
      [of "\<lparr>net = \<lparr>rx = [0x81, 0x05, 1, 2, 3, 4, 5], tx = [], rd = [], wr_left = 0\<rparr>,
            remaining = 0\<rparr>" "0x81" "0x05" "[1, 2, 3, 4, 5]"]
    payload_length_decoding
      [of "\<lparr>net = \<lparr>rx = [0x82, 0x7E, 0x01, 0x02, 9, 9], tx = [], rd = [], wr_left = 0\<rparr>,
            remaining = 0\<rparr>" "0x82" "0x7E" "[0x01, 0x02, 9, 9]"]
    payload_length_decoding
      [of "\<lparr>net = \<lparr>rx = [0x82, 0xFF, 0, 0, 0, 0, 0, 1, 0, 3, 9], tx = [], rd = [],
                    wr_left = 0\<rparr>, remaining = 0\<rparr>"
          "0x82" "0xFF" "[0, 0, 0, 0, 0, 1, 0, 3, 9]"]
  by (simp add: Let_def)

subsection \<open>Draining and receiving\<close>

lemma skip_sizes_0: "skip_sizes 0 = []"
  by (simp add: skip_sizes_def)

lemma skip_sizes_step:
  assumes "0 < r"
  shows "skip_sizes r = min r 1024 # skip_sizes (r - min r 1024)"
proof (cases "1024 \<le> r")
  case True
  then obtain q where r: "r = q + 1024"
    using le_Suc_ex [of 1024 r] by (auto simp: add.commute)
  have "(q + 1024) div 1024 = Suc (q div 1024)" by simp
  moreover have "(q + 1024) mod 1024 = q mod 1024" by simp
  ultimately show ?thesis
    by (simp add: r skip_sizes_def)
next
  case False
  then show ?thesis
    using assms by (simp add: skip_sizes_def)
qed



lemma drained_0: "remaining ws = 0 \<Longrightarrow> drained ws = ws"
  by (simp add: drained_def skip_sizes_0)

lemma unat_skip_chunk:
  fixes r :: uint64_t
  shows "unat (if 1024 < r then 1024 else r) = min (unat r) 1024"
  by (auto simp: word_less_nat_alt)

lemma unat_after_chunk:
  fixes r :: uint64_t
  shows "unat (r - of_nat (min (unat r) 1024)) = unat r - min (unat r) 1024"
proof -
  have "of_nat (min (unat r) 1024) = (if 1024 < r then 1024 else r)"
    by (auto simp: word_less_nat_alt min_def)
  moreover have "(if 1024 < r then 1024 else r) \<le> r"
    by auto
  ultimately show ?thesis
    by (simp add: unat_sub unat_skip_chunk)
qed

lemma skip_remaining_drains:
  assumes "unat (remaining ws) \<le> length (rx (net ws))"
  shows "websocket_skip_remaining ws = (Inr 0, drained ws)"
  using assms
proof (induction ws rule: websocket_skip_remaining.induct)
  case (1 ws)
  let ?r = "remaining ws"
  let ?n = "min (unat ?r) 1024"
  show ?case
  proof (cases "0 < ?r")
    case False
    then have "?r = 0" by (simp add: word_gt_0)
    then show ?thesis
      by (subst websocket_skip_remaining.simps) (simp add: drained_0)
  next
    case pos: True
    then have upos: "0 < unat ?r" by (simp add: word_less_nat_alt)
    let ?n1 = "(net ws)\<lparr>rx := drop ?n (rx (net ws)), rd := rd (net ws) @ [?n]\<rparr>"
    have rd: "net_readn (net ws) (unat (if 1024 < ?r then 1024 else ?r))
              = (Some (take ?n (rx (net ws))), ?n1)"
      using "1.prems" by (simp add: unat_skip_chunk net_readn_def)
    have len: "length (take ?n (rx (net ws))) = ?n"
      using "1.prems" by simp
    let ?ws' = "ws\<lparr>net := ?n1, remaining := ?r - of_nat (length (take ?n (rx (net ws))))\<rparr>"
    have rem': "unat (remaining ?ws') = unat ?r - ?n"
      by (simp only: len) (simp add: unat_after_chunk)
    have "websocket_skip_remaining ?ws' = (Inr 0, drained ?ws')"
    proof (rule "1.IH" [OF pos rd [symmetric] refl])
      show "unat (remaining ?ws') \<le> length (rx (net ?ws'))"
        using "1.prems" by (simp only: rem') simp
    qed
    moreover have "drained ?ws' = drained ws"
      using skip_sizes_step [OF upos] "1.prems"
      by (simp only: drained_def rem') (simp add: add.commute)
    moreover have "websocket_skip_remaining ws = websocket_skip_remaining ?ws'"
      by (subst websocket_skip_remaining.simps)
         (simp only: pos if_True rd prod.case option.case)
    ultimately show ?thesis by simp
  qed
qed


lemma recv_skip_part:
  assumes "unat (remaining ws) \<le> length (rx (net ws))"
  shows "(if remaining ws > 0 then websocket_skip_remaining ws else (Inr 0, ws))
         = (Inr 0, drained ws)"
proof (cases "remaining ws > 0")
  case True
  then show ?thesis using skip_remaining_drains [OF assms] by simp
next
  case False
  then have "remaining ws = 0" by (simp add: word_gt_0)
  then show ?thesis by (simp add: drained_0)
qed

lemma remaining_drained: "remaining (drained ws) = 0"
  by (simp add: drained_def)

lemma recv_drains_first:
  assumes "unat (remaining ws) \<le> length (rx (net ws))"
  shows "websocket_recv ws type buf n = websocket_recv (drained ws) type buf n"
proof -
  have "(if remaining (drained ws) > 0 then websocket_skip_remaining (drained ws)
         else (Inr 0, drained ws)) = (Inr 0, drained ws)"
    by (simp add: remaining_drained)
  then show ?thesis
    unfolding websocket_recv_def by (simp only: recv_skip_part [OF assms])
qed


lemma unat_recv_count:
  fixes n l :: uint64_t
  shows "unat (if n > l then l else n) = min (unat n) (unat l)"
  by (auto simp: word_less_nat_alt)

lemma unat_remaining_after:
  fixes n l :: uint64_t
  shows "unat (l - of_nat (min (unat n) (unat l))) = unat l - min (unat n) (unat l)"
proof -
  have "of_nat (min (unat n) (unat l)) = (if n > l then l else n)"
    by (auto simp: word_less_nat_alt min_def)
  moreover have "(if n > l then l else n) \<le> l"
    by auto
  ultimately show ?thesis
    by (simp add: unat_sub unat_recv_count)
qed

text \<open>Byte counts that pass through \<^verbatim>\<open>int ret\<close>: below \<open>2 ^ 31\<close> the \<^verbatim>\<open>int\<close> is the count,
  it is not \<^verbatim>\<open>-1\<close>, and its conversion to \<^verbatim>\<open>uint64_t\<close> is the count again.\<close>

lemma sint_count:
  assumes "m < 2 ^ 31"
  shows "sint (of_nat m :: c_int) = int m"
proof -
  have "int m < 2 ^ 31" using assms by (metis of_nat_less_iff of_nat_numeral of_nat_power)
  then show ?thesis
    by (simp add: signed_of_nat signed_take_bit_int_eq_self)
qed

lemma count_neq_m1:
  assumes "m < 2 ^ 31"
  shows "(of_nat m :: c_int) \<noteq> - 1"
proof
  assume "(of_nat m :: c_int) = - 1"
  then have "sint (of_nat m :: c_int) = - 1" by simp
  then show False using sint_count [OF assms] by simp
qed

lemma scast_count:
  assumes "m < 2 ^ 31"
  shows "scast (of_nat m :: c_int) = (of_nat m :: uint64_t)"
proof -
  have "scast (of_nat m :: c_int) = (of_int (sint (of_nat m :: c_int)) :: uint64_t)"
    by simp
  then show ?thesis by (simp add: sint_count [OF assms])
qed

text \<open>What a receive does once the header is decoded and the frame is final: the mask
  key, if the header announces one, is read and dropped, and the next
  \<open>min n (len hdr)\<close> bytes of the stream are copied to the caller's buffer as they are.
  The count reaches the result and \<open>remaining\<close> through \<^verbatim>\<open>int ret\<close>.\<close>

lemma recv_frame_int:
  assumes "remaining ws = 0"
    and "websocket_read_frame_hdr ws = (Inr hdr, ws2)"
    and "fin hdr \<noteq> 0"
    and "(if mask_flag hdr \<noteq> 0 then 4 else 0) + min (unat n) (unat (len hdr))
         \<le> length (rx (net ws2))"
  shows "websocket_recv ws type buf n =
     (if (of_nat (min (unat n) (unat (len hdr))) :: c_int) = - 1
      then (Inl NetReadError,
        ws2\<lparr>net := (net ws2)
            \<lparr>rx := drop ((if mask_flag hdr \<noteq> 0 then 4 else 0) + min (unat n) (unat (len hdr)))
                       (rx (net ws2)),
             rd := rd (net ws2) @ (if mask_flag hdr \<noteq> 0 then [4] else [])
                     @ [min (unat n) (unat (len hdr))]\<rparr>,
          remaining := len hdr\<rparr>,
        (case type of None \<Rightarrow> None | Some _ \<Rightarrow> Some (ucast (opcode hdr))),
        take (min (unat n) (unat (len hdr)))
           (drop (if mask_flag hdr \<noteq> 0 then 4 else 0) (rx (net ws2)))
        @ drop (min (unat n) (unat (len hdr))) buf)
      else (Inr (of_nat (min (unat n) (unat (len hdr)))),
        ws2\<lparr>net := (net ws2)
            \<lparr>rx := drop ((if mask_flag hdr \<noteq> 0 then 4 else 0) + min (unat n) (unat (len hdr)))
                       (rx (net ws2)),
             rd := rd (net ws2) @ (if mask_flag hdr \<noteq> 0 then [4] else [])
                     @ [min (unat n) (unat (len hdr))]\<rparr>,
          remaining := len hdr
             - scast (of_nat (min (unat n) (unat (len hdr))) :: c_int)\<rparr>,
        (case type of None \<Rightarrow> None | Some _ \<Rightarrow> Some (ucast (opcode hdr))),
        take (min (unat n) (unat (len hdr)))
           (drop (if mask_flag hdr \<noteq> 0 then 4 else 0) (rx (net ws2)))
        @ drop (min (unat n) (unat (len hdr))) buf))"
proof -
  let ?m = "min (unat n) (unat (len hdr))"
  have z: "\<not> remaining ws > 0" using assms(1) by simp
  show ?thesis
  proof (cases "mask_flag hdr \<noteq> 0")
    case True
    let ?n4 = "(net ws2)\<lparr>rx := drop 4 (rx (net ws2)), rd := rd (net ws2) @ [4]\<rparr>"
    have k: "net_readn (net ws2) 4 = (Some (take 4 (rx (net ws2))), ?n4)"
      using assms(4) True by (simp add: net_readn_def)
    have d: "net_readn ?n4 ?m
             = (Some (take ?m (drop 4 (rx (net ws2)))),
                ?n4\<lparr>rx := drop ?m (drop 4 (rx (net ws2))), rd := rd (net ws2) @ [4] @ [?m]\<rparr>)"
      using assms(4) True by (simp add: net_readn_def)
    have l: "length (take ?m (drop 4 (rx (net ws2)))) = ?m"
      using assms(4) True by simp
    show ?thesis
      using True assms(3) assms(4)
      by (simp add: websocket_recv_def z assms(2) Let_def k unat_recv_count d l add.commute
          cong: if_cong)
  next
    case False
    have d: "net_readn (net ws2) ?m
             = (Some (take ?m (rx (net ws2))),
                (net ws2)\<lparr>rx := drop ?m (rx (net ws2)), rd := rd (net ws2) @ [?m]\<rparr>)"
      using assms(4) False by (simp add: net_readn_def)
    have l: "length (take ?m (rx (net ws2))) = ?m"
      using assms(4) False by simp
    show ?thesis
      using False assms(3) assms(4)
      by (simp add: websocket_recv_def z assms(2) Let_def unat_recv_count d l cong: if_cong)
  qed
qed

lemma recv_frame:
  assumes "remaining ws = 0"
    and "websocket_read_frame_hdr ws = (Inr hdr, ws2)"
    and "fin hdr \<noteq> 0"
    and "(if mask_flag hdr \<noteq> 0 then 4 else 0) + min (unat n) (unat (len hdr))
         \<le> length (rx (net ws2))"
    and "min (unat n) (unat (len hdr)) < 2 ^ 31"
  shows "websocket_recv ws type buf n =
     (Inr (of_nat (min (unat n) (unat (len hdr)))),
      ws2\<lparr>net := (net ws2)
            \<lparr>rx := drop ((if mask_flag hdr \<noteq> 0 then 4 else 0) + min (unat n) (unat (len hdr)))
                       (rx (net ws2)),
             rd := rd (net ws2) @ (if mask_flag hdr \<noteq> 0 then [4] else [])
                     @ [min (unat n) (unat (len hdr))]\<rparr>,
          remaining := len hdr - of_nat (min (unat n) (unat (len hdr)))\<rparr>,
      (case type of None \<Rightarrow> None | Some _ \<Rightarrow> Some (ucast (opcode hdr))),
      take (min (unat n) (unat (len hdr)))
           (drop (if mask_flag hdr \<noteq> 0 then 4 else 0) (rx (net ws2)))
        @ drop (min (unat n) (unat (len hdr))) buf)"
  by (simp only: recv_frame_int [OF assms(1-4)] count_neq_m1 [OF assms(5)]
        scast_count [OF assms(5)] if_False)



lemma bit7_iff: "((b::byte) AND 0x80 \<noteq> 0) = bit b 7"
  using and_exp_eq_0_iff_not_bit [of b 7] by simp

text \<open>A final frame on the wire, after the unread rest of the last one: the receive
  returns the next \<open>min n len\<close> bytes of the stream that follow the header and, when the
  mask bit is set, the four key bytes.\<close>

lemma recv_wire:
  assumes "rx (net ws) = junk @ b0 # b1 # rest"
    and "length junk = unat (remaining ws)"
    and "bit b0 7"
    and "\<not> bit b0 4 \<and> \<not> bit b0 5 \<and> \<not> bit b0 6"
    and "ext_len b1 + (if bit b1 7 then 4 else 0) + min (unat n) (unat (frame_len b1 rest))
         \<le> length rest"
    and "min (unat n) (unat (frame_len b1 rest)) < 2 ^ 31"
  shows "websocket_recv ws type buf n =
     (Inr (of_nat (min (unat n) (unat (frame_len b1 rest)))),
      ws\<lparr>net := (net ws)
           \<lparr>rx := drop (ext_len b1 + (if bit b1 7 then 4 else 0)
                        + min (unat n) (unat (frame_len b1 rest))) rest,
            rd := rd (net ws) @ skip_sizes (unat (remaining ws))
                    @ 2 # (if ext_len b1 = 0 then [] else [ext_len b1])
                    @ (if bit b1 7 then [4] else [])
                    @ [min (unat n) (unat (frame_len b1 rest))]\<rparr>,
         remaining := frame_len b1 rest - of_nat (min (unat n) (unat (frame_len b1 rest)))\<rparr>,
      (case type of None \<Rightarrow> None | Some _ \<Rightarrow> Some (ucast (b0 AND 0xf))),
      take (min (unat n) (unat (frame_len b1 rest)))
           (drop (ext_len b1 + (if bit b1 7 then 4 else 0)) rest)
        @ drop (min (unat n) (unat (frame_len b1 rest))) buf)"
proof -
  let ?hdr = "\<lparr>fin = b0 AND 0x80, opcode = b0 AND 0xf, mask_flag = b1 AND 0x80,
               len = frame_len b1 rest\<rparr>"
  let ?ws2 = "(drained ws)\<lparr>net := (net (drained ws))
                \<lparr>rx := drop (ext_len b1) rest,
                 rd := rd (net (drained ws)) @ 2 # (if ext_len b1 = 0 then [] else [ext_len b1])\<rparr>\<rparr>"
  have e: "unat (remaining ws) \<le> length (rx (net ws))"
    using assms(1,2) by simp
  have rx1: "rx (net (drained ws)) = b0 # b1 # rest"
    using assms(1,2) by (simp add: drained_def)
  have ext: "ext_len b1 \<le> length rest"
    using assms(5) by simp
  have h: "websocket_read_frame_hdr (drained ws) = (Inr ?hdr, ?ws2)"
    by (rule read_frame_hdr_ok [OF rx1 assms(4) ext])
  have fin: "fin ?hdr \<noteq> 0"
    using assms(3) by (simp add: bit7_iff)
  have fits: "(if mask_flag ?hdr \<noteq> 0 then 4 else 0) + min (unat n) (unat (len ?hdr))
              \<le> length (rx (net ?ws2))"
    using assms(5) by (simp add: bit7_iff)
  have small: "min (unat n) (unat (len ?hdr)) < 2 ^ 31"
    using assms(6) by simp
  show ?thesis
    unfolding recv_drains_first [OF e]
    by (subst recv_frame [OF remaining_drained h fin fits small])
       (simp add: bit7_iff drained_def add.commute add.left_commute cong: option.case_cong)
qed




text \<open>
  C7. A frame whose first byte has the fin bit (bit 7) clear: once the unread rest of the
  last frame is drained and the header is decoded (reserved bits clear, the extended
  length delivered), \<open>websocket_recv\<close> fails with \<open>UnsupportedFragmentation\<close>, whatever
  the opcode bits of the first byte and whatever the second byte and the extended length
  say. The caller's \<open>type\<close> and buffer are as they were, and the stream stands right
  after the header: no payload byte has been read.
\<close>

theorem fragment_rejected:
  assumes "rx (net ws) = junk @ b0 # b1 # rest"
    and "length junk = unat (remaining ws)"
    and "\<not> bit b0 7"
    and "\<not> bit b0 4 \<and> \<not> bit b0 5 \<and> \<not> bit b0 6"
    and "ext_len b1 \<le> length rest"
  shows "websocket_recv ws type buf n =
     (Inl UnsupportedFragmentation,
      ws\<lparr>net := (net ws)
           \<lparr>rx := drop (ext_len b1) rest,
            rd := rd (net ws) @ skip_sizes (unat (remaining ws))
                    @ 2 # (if ext_len b1 = 0 then [] else [ext_len b1])\<rparr>,
         remaining := 0\<rparr>,
      type, buf)"
proof -
  have e: "unat (remaining ws) \<le> length (rx (net ws))"
    using assms(1,2) by simp
  have rx1: "rx (net (drained ws)) = b0 # b1 # rest"
    using assms(1,2) by (simp add: drained_def)
  have z: "\<not> remaining (drained ws) > 0"
    by (simp add: remaining_drained)
  have fin0: "b0 AND 0x80 = 0"
    using assms(3) and_exp_eq_0_iff_not_bit [of b0 7] by simp
  show ?thesis
    unfolding recv_drains_first [OF e]
    by (simp add: websocket_recv_def z read_frame_hdr_ok [OF rx1 assms(4,5)] fin0)
       (simp add: drained_def)
qed

theorem fragment_rejected_witness:
  "websocket_recv
     \<lparr>net = \<lparr>rx = [0x01, 0x03, 1, 2, 3], tx = [], rd = [], wr_left = 0\<rparr>, remaining = 0\<rparr>
     (Some 7) [0, 0, 0] 3
   = (Inl UnsupportedFragmentation,
      \<lparr>net = \<lparr>rx = [1, 2, 3], tx = [], rd = [2], wr_left = 0\<rparr>, remaining = 0\<rparr>,
      Some 7, [0, 0, 0])
   \<and> websocket_recv
     \<lparr>net = \<lparr>rx = [9, 0x02, 0xFE, 0x01, 0x00, 5], tx = [], rd = [], wr_left = 0\<rparr>, remaining = 1\<rparr>
     None [] 0
   = (Inl UnsupportedFragmentation,
      \<lparr>net = \<lparr>rx = [5], tx = [], rd = [1, 2, 2], wr_left = 0\<rparr>, remaining = 0\<rparr>,
      None, [])"
  using
    fragment_rejected
      [of "\<lparr>net = \<lparr>rx = [0x01, 0x03, 1, 2, 3], tx = [], rd = [], wr_left = 0\<rparr>, remaining = 0\<rparr>"
          "[]" "0x01" "0x03" "[1, 2, 3]" "Some 7" "[0, 0, 0]" 3]
    fragment_rejected
      [of "\<lparr>net = \<lparr>rx = [9, 0x02, 0xFE, 0x01, 0x00, 5], tx = [], rd = [], wr_left = 0\<rparr>,
            remaining = 1\<rparr>"
          "[9]" "0x02" "0xFE" "[0x01, 0x00, 5]" None "[]" 0]
  by (simp add: ext_len_def skip_sizes_def)

subsection \<open>What a receive delivers\<close>

text \<open>
  X1. A final frame with the reserved bits clear, whose bytes the transport delivers
  after the unread rest of the last frame, received with \<open>min n len < 2 ^ 31\<close>:
  \<open>websocket_recv\<close> returns \<open>min n len\<close>, the number of bytes it copies to the caller's
  buffer; these are the bytes of the stream that follow the header (and the four key bytes
  when the mask bit is set), unchanged in both cases; the opcode is stored through
  \<open>type\<close>; \<open>remaining\<close> becomes the payload length minus the bytes delivered.
\<close>

theorem recv_delivers_stream_bytes:
  assumes "rx (net ws) = junk @ b0 # b1 # rest"
    and "length junk = unat (remaining ws)"
    and "bit b0 7"
    and "\<not> bit b0 4 \<and> \<not> bit b0 5 \<and> \<not> bit b0 6"
    and "ext_len b1 + (if bit b1 7 then 4 else 0) + min (unat n) (unat (frame_len b1 rest))
         \<le> length rest"
    and "min (unat n) (unat (frame_len b1 rest)) < 2 ^ 31"
  shows "fst (websocket_recv ws type buf n)
         = Inr (of_nat (min (unat n) (unat (frame_len b1 rest))))
     \<and> sint (of_nat (min (unat n) (unat (frame_len b1 rest))) :: c_int)
         = int (min (unat n) (unat (frame_len b1 rest)))
     \<and> snd (snd (snd (websocket_recv ws type buf n)))
         = take (min (unat n) (unat (frame_len b1 rest)))
             (drop (ext_len b1 + (if bit b1 7 then 4 else 0)) rest)
           @ drop (min (unat n) (unat (frame_len b1 rest))) buf
     \<and> fst (snd (snd (websocket_recv ws type buf n)))
         = (case type of None \<Rightarrow> None | Some _ \<Rightarrow> Some (ucast (b0 AND 0xf)))
     \<and> remaining (fst (snd (websocket_recv ws type buf n)))
         = frame_len b1 rest - of_nat (min (unat n) (unat (frame_len b1 rest)))
     \<and> unat (remaining (fst (snd (websocket_recv ws type buf n))))
         = unat (frame_len b1 rest) - min (unat n) (unat (frame_len b1 rest))"
  by (simp add: recv_wire [OF assms] unat_remaining_after sint_count [OF assms(6)])

theorem recv_delivers_stream_bytes_witness:
  "websocket_recv
     \<lparr>net = \<lparr>rx = [0x82, 0x03, 10, 20, 30, 7], tx = [], rd = [], wr_left = 0\<rparr>, remaining = 0\<rparr>
     (Some 0) [0, 0, 0, 0] 4
   = (Inr 3,
      \<lparr>net = \<lparr>rx = [7], tx = [], rd = [2, 3], wr_left = 0\<rparr>, remaining = 0\<rparr>,
      Some 2, [10, 20, 30, 0])
   \<and> websocket_recv
     \<lparr>net = \<lparr>rx = [0x82, 0x83, 1, 2, 3, 4, 10, 20, 30, 7], tx = [], rd = [], wr_left = 0\<rparr>,
      remaining = 0\<rparr>
     (Some 0) [0, 0] 2
   = (Inr 2,
      \<lparr>net = \<lparr>rx = [30, 7], tx = [], rd = [2, 4, 2], wr_left = 0\<rparr>, remaining = 1\<rparr>,
      Some 2, [10, 20])"
proof -
  let ?a = "\<lparr>net = \<lparr>rx = [0x82, 0x03, 10, 20, 30, 7], tx = [], rd = [], wr_left = 0\<rparr>,
            remaining = 0\<rparr>"
  let ?b = "\<lparr>net = \<lparr>rx = [0x82, 0x83, 1, 2, 3, 4, 10, 20, 30, 7], tx = [], rd = [],
                  wr_left = 0\<rparr>, remaining = 0\<rparr>"
  have a: "websocket_recv ?a (Some 0) [0, 0, 0, 0] 4
   = (Inr 3,
      \<lparr>net = \<lparr>rx = [7], tx = [], rd = [2, 3], wr_left = 0\<rparr>, remaining = 0\<rparr>,
      Some 2, [10, 20, 30, 0])"
    by (simp add: websocket_recv_def websocket_read_frame_hdr_def net_readn_def frame_consts
        FRAME_RSV1_def FRAME_RSV2_def FRAME_RSV3_def Let_def)
  have b: "websocket_recv ?b (Some 0) [0, 0] 2
   = (Inr 2,
      \<lparr>net = \<lparr>rx = [30, 7], tx = [], rd = [2, 4, 2], wr_left = 0\<rparr>, remaining = 1\<rparr>,
      Some 2, [10, 20])"
    by (simp add: websocket_recv_def websocket_read_frame_hdr_def net_readn_def frame_consts
        FRAME_RSV1_def FRAME_RSV2_def FRAME_RSV3_def Let_def)
  have "snd (snd (snd (websocket_recv ?a (Some 0) [0, 0, 0, 0] 4))) = [10, 20, 30, 0]"
    using recv_delivers_stream_bytes
      [of ?a "[]" "0x82" "0x03" "[10, 20, 30, 7]" 4 "Some 0" "[0, 0, 0, 0]"]
    by (simp add: ext_len_def frame_len_def)
  moreover have "snd (snd (snd (websocket_recv ?b (Some 0) [0, 0] 2))) = [10, 20]"
    using recv_delivers_stream_bytes
      [of ?b "[]" "0x82" "0x83" "[1, 2, 3, 4, 10, 20, 30, 7]" 2 "Some 0" "[0, 0]"]
    by (simp add: ext_len_def frame_len_def)
  ultimately show ?thesis
    using a b by simp
qed

subsection \<open>Masked frames on the receiving side\<close>

text \<open>
  C1. A text frame of one payload byte with the mask bit set, the mask key 01 01 01 01 and
  the payload byte 40 on the wire (the byte 41 masked with the key): \<open>websocket_recv\<close>
  reads the header, the four key bytes and one payload byte, and the caller's buffer
  holds 40, the byte as it came, not 41. The key is read and never applied.
\<close>

theorem recv_masked_frame_not_unmasked:
  "websocket_recv
     \<lparr>net = \<lparr>rx = [0x81, 0x81, 1, 1, 1, 1, 0x40], tx = [], rd = [], wr_left = 0\<rparr>,
      remaining = 0\<rparr> (Some 0) [0] 1
   = (Inr 1,
      \<lparr>net = \<lparr>rx = [], tx = [], rd = [2, 4, 1], wr_left = 0\<rparr>, remaining = 0\<rparr>,
      Some 1, [0x40])
   \<and> (0x40::byte) XOR 1 = 0x41"
  by (simp add: websocket_recv_def websocket_read_frame_hdr_def net_readn_def frame_consts
      FRAME_RSV1_def FRAME_RSV2_def FRAME_RSV3_def Let_def)

subsection \<open>The random bytes\<close>

lemma unat_rand_byte: "unat (rand_byte x) = x mod 255"
proof -
  have "x mod 255 < 256"
    using mod_less_divisor [of 255 x] by linarith
  then show ?thesis
    by (simp add: rand_byte_def unat_of_nat)
qed

lemma rand_byte_neq_255: "rand_byte x \<noteq> 255"
proof
  assume "rand_byte x = 255"
  then have "unat (rand_byte x) = 255" by simp
  then show False
    using mod_less_divisor [of 255 x] by (simp add: unat_rand_byte)
qed

lemma rand_byte_unat: "rand_byte (unat (x::byte)) = (if x = 255 then 0 else x)"
proof (cases "x = 255")
  case True
  then show ?thesis by (simp add: rand_byte_def)
next
  case False
  then have "unat x \<noteq> 255"
    by (metis of_nat_unat ucast_id of_nat_numeral)
  then have "unat x < 255"
    using unat_byte_less [of x] by linarith
  then show ?thesis
    using False by (simp add: rand_byte_def)
qed

subsection \<open>The header of a sent frame\<close>

lemma low7_of_masked: "(0x80 OR (x::byte)) AND 0x7f = x AND 0x7f"
proof -
  have "(push_bit k 1 OR x) AND mask k = x AND mask k" for k
    by (rule bit_word_eqI) (auto simp: bit_simps)
  from this [of 7] show ?thesis
    by (simp add: mask_eq_exp_minus_1)
qed

lemma low7_small: "(x::byte) < 128 \<Longrightarrow> x AND 0x7f = x"
  using less_mask_eq [of x 7] by (simp add: mask_eq_exp_minus_1)

lemma unat_ucast_down:
  fixes w :: "'a::len word"
  assumes "unat w < 2 ^ LENGTH('b::len)"
  shows "unat (ucast w :: 'b word) = unat w"
  using assms by (simp add: unsigned_ucast_eq take_bit_nat_eq_self)

lemma send_header_small:
  assumes "(n::size_t) \<le> 125"
  shows "send_header type n = [0x80 OR ucast type, 0x80 OR ucast n]"
    and "(send_header type n ! 1) AND 0x7f = ucast n"
    and "unat (ucast n :: byte) = unat n"
proof -
  show h: "send_header type n = [0x80 OR ucast type, 0x80 OR ucast n]"
    using assms by (simp add: send_header_def frame_consts)
  have u: "unat n \<le> 125"
    using assms by (simp add: word_le_nat_alt)
  then show c: "unat (ucast n :: byte) = unat n"
    by (intro unat_ucast_down) simp
  have "(ucast n :: byte) < 128"
    using u c by (simp add: word_less_nat_alt)
  then show "(send_header type n ! 1) AND 0x7f = ucast n"
    by (simp add: h low7_of_masked low7_small)
qed

lemma send_header_medium:
  assumes "125 < (n::size_t)" and "n \<le> 0xffff"
  shows "send_header type n = [0x80 OR ucast type, 0xFE] @ store_u16 (htons (ucast n))"
    and "be_nat (drop 2 (send_header type n)) = unat n"
proof -
  from assms(1) have "\<not> n \<le> 125" by simp
  then show h: "send_header type n = [0x80 OR ucast type, 0xFE] @ store_u16 (htons (ucast n))"
    using assms(2) by (simp add: send_header_def frame_consts)
  have "unat n \<le> 65535"
    using assms(2) by (simp add: word_le_nat_alt)
  then have "unat (ucast n :: uint16_t) = unat n"
    by (intro unat_ucast_down) simp
  then show "be_nat (drop 2 (send_header type n)) = unat n"
    by (simp add: h be_nat_store_htons)
qed

lemma send_header_large:
  assumes "0xffff < (n::size_t)"
  shows "send_header type n
         = [0x80 OR ucast type, 0xFF, 0, 0, 0, 0] @ store_u32 (htonl (ucast n))"
    and "be_nat (drop 2 (send_header type n)) = unat n mod 2 ^ 32"
proof -
  from assms have "\<not> n \<le> 125" and "\<not> n \<le> 0xffff"
    by (simp_all add: word_le_nat_alt word_less_nat_alt)
  then show h: "send_header type n
         = [0x80 OR ucast type, 0xFF, 0, 0, 0, 0] @ store_u32 (htonl (ucast n))"
    by (simp add: send_header_def frame_consts store_htonl_0 low32_mask)
  have "be_nat (drop 2 (send_header type n))
        = be_nat ([0, 0, 0, 0] @ store_u32 (htonl (ucast n)))"
    by (simp add: h)
  also have "\<dots> = unat (ucast n :: uint32_t)"
    by (simp only: be_nat_append be_nat_store_htonl) simp
  also have "\<dots> = unat n mod 2 ^ 32"
    by (simp add: unsigned_ucast_eq take_bit_eq_mod)
  finally show "be_nat (drop 2 (send_header type n)) = unat n mod 2 ^ 32" .
qed

subsection \<open>The payload of a sent frame\<close>

lemma chunks_of_Nil: "chunks_of k [] = []"
  by (simp add: chunks_of.simps)

lemma chunks_of_full:
  "0 < k \<Longrightarrow> length xs = k \<Longrightarrow> chunks_of k (xs @ ys) = xs # chunks_of k ys"
  by (subst chunks_of.simps) auto

lemma chunks_of_last:
  assumes "xs \<noteq> []" and "length xs \<le> k"
  shows "chunks_of k xs = [xs]"
proof -
  have "0 < k" using assms by (cases xs) auto
  then show ?thesis
    using assms by (subst chunks_of.simps) (simp add: chunks_of_Nil)
qed

lemma concat_chunks_of: "0 < k \<Longrightarrow> concat (chunks_of k xs) = xs"
proof (induction k xs rule: chunks_of.induct)
  case (1 k xs)
  then show ?case
    by (subst chunks_of.simps) auto
qed

lemma chunks_of_sizes: "c \<in> set (chunks_of k xs) \<Longrightarrow> 0 < length c \<and> length c \<le> k"
proof (induction k xs rule: chunks_of.induct)
  case (1 k xs)
  from "1.prems" have ne: "\<not> (k = 0 \<or> xs = [])"
    by (subst (asm) chunks_of.simps) (auto split: if_splits)
  with "1.prems" have "c = take k xs \<or> c \<in> set (chunks_of k (drop k xs))"
    by (subst (asm) chunks_of.simps) auto
  then show ?case
    using ne "1.IH" by auto
qed

lemma length_chunks_of: "0 < k \<Longrightarrow> length (chunks_of k xs) = (length xs + (k - 1)) div k"
proof (induction k xs rule: chunks_of.induct)
  case (1 k xs)
  show ?case
  proof (cases "xs = []")
    case True
    then show ?thesis using "1.prems" by (simp add: chunks_of_Nil)
  next
    case False
    then have ne: "\<not> (k = 0 \<or> xs = [])" using "1.prems" by simp
    have "length (chunks_of k xs) = Suc (length (chunks_of k (drop k xs)))"
      using ne by (subst chunks_of.simps) simp
    also have "\<dots> = Suc ((length xs - k + (k - 1)) div k)"
      using "1.IH" [OF ne] "1.prems" by simp
    also have "\<dots> = (length xs + (k - 1)) div k"
    proof (cases "k \<le> length xs")
      case True
      then have "length xs + (k - 1) = (length xs - k + (k - 1)) + k" by simp
      then show ?thesis
        using "1.prems" by (metis div_add_self2 less_numeral_extra(3) Suc_eq_plus1)
    next
      case False
      then have z: "length xs - k = 0" and lt: "length xs - 1 < k"
        by simp_all
      have "length xs + (k - 1) = (length xs - 1) + k"
        using \<open>xs \<noteq> []\<close> "1.prems" by (cases xs) simp_all
      then have "(length xs + (k - 1)) div k = Suc ((length xs - 1) div k)"
        using "1.prems" by (metis div_add_self2 less_numeral_extra(3) Suc_eq_plus1)
      then show ?thesis
        using z lt "1.prems" by simp
    qed
    finally show ?thesis .
  qed
qed

lemma masked_step: "i < n \<Longrightarrow> masked k ptr i n = ((ptr ! i) XOR (k ! (i mod 4))) # masked k ptr (Suc i) n"
  by (simp add: masked_def upt_conv_Cons)

lemma masked_empty: "n \<le> i \<Longrightarrow> masked k ptr i n = []"
  by (simp add: masked_def)

lemma length_masked: "length (masked k ptr i n) = n - i"
  by (simp add: masked_def)

lemma net_write_ok:
  "0 < wr_left nt \<Longrightarrow>
   net_write nt bs = (Some (of_nat (length bs)), nt\<lparr>tx := tx nt @ [bs], wr_left := wr_left nt - 1\<rparr>)"
  by (simp add: net_write_def)

text \<open>The loop invariant: \<open>payload\<close> holds fewer than 2048 bytes, and it is empty once
  the index has reached \<open>n\<close>. With a transport that accepts the writes still due, the loop
  writes what is left, cut at every 2048th byte, and adds its number to \<open>nwrite\<close> in 32-bit
  arithmetic.\<close>

lemma send_loop_chunks:
  assumes "i < n \<or> payload = []" and "i \<le> n" and "length payload < 2048"
    and "(length payload + (n - i) + 2047) div 2048 \<le> wr_left nt"
  shows "send_loop ptr mask_key n i payload nwrite nt =
           (Inr (nwrite + of_nat (length payload + (n - i))),
            nt\<lparr>tx := tx nt @ chunks_of 2048 (payload @ masked mask_key ptr i n),
               wr_left := wr_left nt - (length payload + (n - i) + 2047) div 2048\<rparr>)"
  using assms
proof (induction ptr mask_key n i payload nwrite nt rule: send_loop.induct)
  case (1 ptr mask_key n i payload nwrite nt)
  let ?x = "(ptr ! i) XOR (mask_key ! (i mod 4))"
  let ?p = "payload @ [?x]"
  show ?case
  proof (cases "i < n")
    case False
    with "1.prems" have "i = n" and "payload = []" by auto
    then show ?thesis
      by (subst send_loop.simps) (simp add: masked_empty chunks_of_Nil)
  next
    case True
    note lt = True
    have m: "masked mask_key ptr i n = ?x # masked mask_key ptr (Suc i) n"
      using lt by (rule masked_step)
    show ?thesis
    proof (cases "length ?p < 2048 \<and> i + 1 < n")
      case True
      have "send_loop ptr mask_key n (i + 1) ?p nwrite nt =
           (Inr (nwrite + of_nat (length ?p + (n - (i + 1)))),
            nt\<lparr>tx := tx nt @ chunks_of 2048 (?p @ masked mask_key ptr (i + 1) n),
               wr_left := wr_left nt - (length ?p + (n - (i + 1)) + 2047) div 2048\<rparr>)"
      proof (rule "1.IH"(1) [OF lt True])
        show "i + 1 < n \<or> ?p = []" using True by simp
        show "i + 1 \<le> n" using True by simp
        show "length ?p < 2048" using True by simp
        show "(length ?p + (n - (i + 1)) + 2047) div 2048 \<le> wr_left nt"
          using "1.prems"(4) lt by simp
      qed
      moreover have "length ?p + (n - (i + 1)) = length payload + (n - i)"
        using lt by simp
      ultimately show ?thesis
        using lt True by (subst send_loop.simps) (simp add: m)
    next
      case False
      note flush = False
      have pos: "0 < wr_left nt"
      proof -
        have "1 \<le> (length payload + (n - i) + 2047) div 2048"
          using lt by (simp add: Suc_le_eq div_greater_zero_iff)
        with "1.prems"(4) show ?thesis by linarith
      qed
      let ?nt = "nt\<lparr>tx := tx nt @ [?p], wr_left := wr_left nt - 1\<rparr>"
      have w: "net_write nt ?p = (Some (of_nat (length ?p)), ?nt)"
        using pos by (rule net_write_ok)
      have budget: "(length payload + (n - i) + 2047) div 2048
                    = Suc ((n - (i + 1) + 2047) div 2048)"
      proof (cases "i + 1 < n")
        case True
        with flush have "length payload = 2047" using "1.prems"(3) by simp
        then have "length payload + (n - i) + 2047 = (n - (i + 1) + 2047) + 2048"
          using lt by simp
        then show ?thesis
          by (metis div_add_self2 Suc_eq_plus1 zero_neq_numeral)
      next
        case False
        with lt have e: "n - i = 1" and z: "n - Suc i = 0" by simp_all
        have "length payload + 1 + 2047 = length payload + 2048" by simp
        then have "(length payload + 1 + 2047) div 2048 = Suc (length payload div 2048)"
          by (metis div_add_self2 Suc_eq_plus1 zero_neq_numeral)
        then have "(length payload + (n - i) + 2047) div 2048 = Suc 0"
          using "1.prems"(3) by (simp add: e)
        then show ?thesis
          by (simp add: z)
      qed
      have rec: "send_loop ptr mask_key n (i + 1) [] (nwrite + of_nat (length ?p)) ?nt =
           (Inr (nwrite + of_nat (length ?p) + of_nat (length ([]::byte list) + (n - (i + 1)))),
            ?nt\<lparr>tx := tx ?nt @ chunks_of 2048 ([] @ masked mask_key ptr (i + 1) n),
                wr_left := wr_left ?nt - (length ([]::byte list) + (n - (i + 1)) + 2047) div 2048\<rparr>)"
      proof (rule "1.IH"(2) [OF lt flush])
        show "(Some (of_nat (length ?p)), ?nt) = net_write nt ?p" using w by simp
        show "Some (of_nat (length ?p)) = Some (of_nat (length ?p))" ..
        show "i + 1 < n \<or> ([]::byte list) = []" by simp
        show "i + 1 \<le> n" using lt by simp
        show "length ([]::byte list) < 2048" by simp
        show "(length ([]::byte list) + (n - (i + 1)) + 2047) div 2048 \<le> wr_left ?nt"
          using "1.prems"(4) budget by simp
      qed
      have ch: "chunks_of 2048 (payload @ masked mask_key ptr i n)
                = ?p # chunks_of 2048 (masked mask_key ptr (i + 1) n)"
      proof (cases "i + 1 < n")
        case True
        with flush have "length ?p = 2048" using "1.prems"(3) by simp
        then have "chunks_of 2048 (?p @ masked mask_key ptr (i + 1) n)
                   = ?p # chunks_of 2048 (masked mask_key ptr (i + 1) n)"
          by (intro chunks_of_full) simp_all
        then show ?thesis by (simp add: m)
      next
        case False
        then have "masked mask_key ptr (i + 1) n = []"
          by (simp add: masked_empty)
        moreover have "chunks_of 2048 ?p = [?p]"
          using "1.prems"(3) by (intro chunks_of_last) simp_all
        ultimately show ?thesis
          by (simp add: m chunks_of_Nil)
      qed
      have "send_loop ptr mask_key n i payload nwrite nt
            = send_loop ptr mask_key n (i + 1) [] (nwrite + of_nat (length ?p)) ?nt"
        by (subst send_loop.simps) (simp only: lt flush if_True if_False w prod.case option.case)
      also note rec
      also have "nwrite + of_nat (length ?p) + of_nat (length ([]::byte list) + (n - (i + 1)))
                 = nwrite + of_nat (length payload + (n - i))"
        using lt by simp
      also have "?nt\<lparr>tx := tx ?nt @ chunks_of 2048 ([] @ masked mask_key ptr (i + 1) n),
                wr_left := wr_left ?nt - (length ([]::byte list) + (n - (i + 1)) + 2047) div 2048\<rparr>
            = nt\<lparr>tx := tx nt @ chunks_of 2048 (payload @ masked mask_key ptr i n),
               wr_left := wr_left nt - (length payload + (n - i) + 2047) div 2048\<rparr>"
        by (simp add: ch budget)
      finally show ?thesis .
    qed
  qed
qed

lemma length_send_mask_key: "length (send_mask_key rnd) = 4"
  by (simp add: send_mask_key_def)

lemma websocket_send_result:
  assumes "1 + (unat n + 2047) div 2048 \<le> wr_left (net ws)"
  shows "websocket_send ws rnd type ptr n =
           (Inr (ucast n),
            ws\<lparr>net := (net ws)
               \<lparr>tx := tx (net ws) @ [send_header type n @ send_mask_key rnd]
                        @ chunks_of 2048 (masked (send_mask_key rnd) ptr 0 (unat n)),
                wr_left := wr_left (net ws) - 1 - (unat n + 2047) div 2048\<rparr>\<rparr>)"
proof -
  let ?h = "send_header type n @ send_mask_key rnd"
  let ?n1 = "(net ws)\<lparr>tx := tx (net ws) @ [?h], wr_left := wr_left (net ws) - 1\<rparr>"
  have pos: "0 < wr_left (net ws)" using assms by simp
  have w: "net_write (net ws) ?h = (Some (of_nat (length ?h)), ?n1)"
    using pos by (rule net_write_ok)
  have "send_loop ptr (send_mask_key rnd) (unat n) 0 [] 0 ?n1 =
           (Inr (0 + of_nat (length ([]::byte list) + (unat n - 0))),
            ?n1\<lparr>tx := tx ?n1 @ chunks_of 2048 ([] @ masked (send_mask_key rnd) ptr 0 (unat n)),
               wr_left := wr_left ?n1 - (length ([]::byte list) + (unat n - 0) + 2047) div 2048\<rparr>)"
    using assms by (intro send_loop_chunks) simp_all
  then show ?thesis
    by (simp add: websocket_send_def Let_def w)
qed

text \<open>Whether or not the transport accepts every write, the loop only appends to the
  log of writes.\<close>

lemma send_loop_tx_prefix:
  "\<exists>cs. tx (snd (send_loop ptr mask_key n i payload nwrite nt)) = tx nt @ cs"
proof (induction ptr mask_key n i payload nwrite nt rule: send_loop.induct)
  case (1 ptr mask_key n i payload nwrite nt)
  let ?p = "payload @ [(ptr ! i) XOR (mask_key ! (i mod 4))]"
  show ?case
  proof (cases "i < n")
    case False
    then show ?thesis
      by (subst send_loop.simps) simp
  next
    case lt: True
    show ?thesis
    proof (cases "length ?p < 2048 \<and> i + 1 < n")
      case True
      then show ?thesis
        using "1.IH"(1) [OF lt True] lt by (subst send_loop.simps) simp
    next
      case flush: False
      show ?thesis
      proof (cases "wr_left nt = 0")
        case True
        then have "net_write nt ?p = (None, nt)"
          by (simp add: net_write_def)
        then show ?thesis
          by (subst send_loop.simps) (simp only: lt flush if_True if_False prod.case option.case, simp)
      next
        case False
        let ?nt = "nt\<lparr>tx := tx nt @ [?p], wr_left := wr_left nt - 1\<rparr>"
        have w: "net_write nt ?p = (Some (of_nat (length ?p)), ?nt)"
          using False by (intro net_write_ok) simp
        obtain cs where
          "tx (snd (send_loop ptr mask_key n (i + 1) [] (nwrite + of_nat (length ?p)) ?nt))
           = tx ?nt @ cs"
          using "1.IH"(2) [OF lt flush w [symmetric] refl] by blast
        then have "tx (snd (send_loop ptr mask_key n (i + 1) [] (nwrite + of_nat (length ?p)) ?nt))
           = tx nt @ (?p # cs)"
          by simp
        then show ?thesis
          by (subst send_loop.simps)
             (simp only: lt flush if_True if_False w prod.case option.case, blast)
      qed
    qed
  qed
qed

text \<open>
  C9. When the transport accepts the writes, \<open>websocket_send\<close> hands it the header (the
  base header followed by the mask key) in one write, and after it the masked payload cut
  into pieces of 2048 bytes, the last one possibly shorter, one write each. The pieces put
  together are the masked payload, whose \<open>i\<close>-th byte is the \<open>i\<close>-th input byte XORed with
  byte \<open>i mod 4\<close> of the mask key, \<open>i\<close> being the position in the whole payload; no piece is
  empty or longer than 2048 bytes. The value returned is the \<^verbatim>\<open>int\<close> in which the lengths of
  the pieces were added up: \<open>n\<close> cut to 32 bits, which is the payload length for
  \<open>n < 2 ^ 31\<close>.
\<close>

theorem send_masks_and_chunks:
  assumes "unat n \<le> length ptr"
    and "1 + (unat n + 2047) div 2048 \<le> wr_left (net ws)"
  shows
    "websocket_send ws rnd type ptr n =
       (Inr (ucast n),
        ws\<lparr>net := (net ws)
           \<lparr>tx := tx (net ws) @ [send_header type n @ send_mask_key rnd]
                    @ chunks_of 2048 (masked (send_mask_key rnd) ptr 0 (unat n)),
            wr_left := wr_left (net ws) - 1 - (unat n + 2047) div 2048\<rparr>\<rparr>)
     \<and> (unat n < 2 ^ 31 \<longrightarrow> sint (ucast n :: c_int) = int (unat n))
     \<and> concat (chunks_of 2048 (masked (send_mask_key rnd) ptr 0 (unat n)))
         = masked (send_mask_key rnd) ptr 0 (unat n)
     \<and> length (masked (send_mask_key rnd) ptr 0 (unat n)) = unat n
     \<and> (\<forall>i < unat n. masked (send_mask_key rnd) ptr 0 (unat n) ! i
                        = (take (unat n) ptr ! i) XOR (send_mask_key rnd ! (i mod 4)))
     \<and> (\<forall>c \<in> set (chunks_of 2048 (masked (send_mask_key rnd) ptr 0 (unat n))).
            0 < length c \<and> length c \<le> 2048)
     \<and> length (chunks_of 2048 (masked (send_mask_key rnd) ptr 0 (unat n)))
         = (unat n + 2047) div 2048"
proof -
  have "length (chunks_of 2048 (masked (send_mask_key rnd) ptr 0 (unat n)))
        = (unat n + 2047) div 2048"
    by (simp add: length_chunks_of length_masked)
  moreover have "\<forall>i < unat n. masked (send_mask_key rnd) ptr 0 (unat n) ! i
                        = (take (unat n) ptr ! i) XOR (send_mask_key rnd ! (i mod 4))"
    by (simp add: masked_def)
  moreover have "\<forall>c \<in> set (chunks_of 2048 (masked (send_mask_key rnd) ptr 0 (unat n))).
            0 < length c \<and> length c \<le> 2048"
    using chunks_of_sizes by blast
  moreover have "sint (ucast n :: c_int) = int (unat n)" if "unat n < 2 ^ 31"
    using sint_count [OF that] by simp
  ultimately show ?thesis
    using websocket_send_result [OF assms(2), of rnd type ptr]
    by (simp add: concat_chunks_of length_masked)
qed

theorem send_masks_and_chunks_witness:
  "websocket_send \<lparr>net = \<lparr>rx = [], tx = [], rd = [], wr_left = 2\<rparr>, remaining = 0\<rparr>
     (\<lambda>i. i + 1) 1 [0x48, 0x65, 0x6c, 0x6c, 0x6f] 5
   = (Inr 5,
      \<lparr>net = \<lparr>rx = [], tx = [[0x81, 0x85, 1, 2, 3, 4], [0x49, 0x67, 0x6f, 0x68, 0x6e]],
               rd = [], wr_left = 0\<rparr>,
       remaining = 0\<rparr>)
   \<and> sint (ucast (5::size_t) :: c_int) = int (unat (5::size_t))"
  using send_masks_and_chunks
    [of 5 "[0x48, 0x65, 0x6c, 0x6c, 0x6f]"
        "\<lparr>net = \<lparr>rx = [], tx = [], rd = [], wr_left = 2\<rparr>, remaining = 0\<rparr>"
        "\<lambda>i. i + 1" 1]
  by (simp add: send_header_def send_mask_key_def rand_byte_def masked_def frame_consts
      chunks_of_last upt_conv_Cons)

text \<open>
  C3. The base header that \<open>websocket_send\<close> builds for a payload of \<open>n\<close> bytes: for
  \<open>n \<le> 125\<close>, 2 bytes with \<open>n\<close> in the low 7 bits of byte 1; for \<open>126 \<le> n \<le> 65535\<close>,
  4 bytes with the length class 126 and \<open>n\<close> as a big-endian 16-bit number; for
  \<open>n \<ge> 65536\<close>, 10 bytes with the length class 127, four zero bytes and the low 32 bits of
  \<open>n\<close> as a big-endian number, so that the 8 bytes read as \<open>n\<close> with its high 32 bits
  forced to zero (as \<open>n\<close> itself when \<open>n < 2 ^ 32\<close>). With the 4-byte mask key the header is 6, 8
  or 14 bytes, and it is what the first write of \<open>websocket_send\<close> hands to the transport.
\<close>

theorem send_header_tiers:
  "(n \<le> 125 \<longrightarrow>
      length (send_header type n) = 2
      \<and> (send_header type n ! 1) AND 0x7f = ucast n \<and> unat (ucast n :: byte) = unat n
      \<and> length (send_header type n @ send_mask_key rnd) = 6)
   \<and> (125 < n \<and> n \<le> 0xffff \<longrightarrow>
      length (send_header type n) = 4
      \<and> (send_header type n ! 1) AND 0x7f = 126
      \<and> be_nat (drop 2 (send_header type n)) = unat n
      \<and> length (send_header type n @ send_mask_key rnd) = 8)
   \<and> (0xffff < n \<longrightarrow>
      length (send_header type n) = 10
      \<and> (send_header type n ! 1) AND 0x7f = 127
      \<and> take 4 (drop 2 (send_header type n)) = [0, 0, 0, 0]
      \<and> be_nat (drop 2 (send_header type n)) = unat (n AND 0xffffffff)
      \<and> (n < 2 ^ 32 \<longrightarrow> be_nat (drop 2 (send_header type n)) = unat n)
      \<and> length (send_header type n @ send_mask_key rnd) = 14)
   \<and> (0 < wr_left (net ws) \<longrightarrow>
      tx (net (snd (websocket_send ws rnd type ptr n))) ! length (tx (net ws))
      = send_header type n @ send_mask_key rnd)"
proof -
  have small: "length (send_header type n) = 2
      \<and> (send_header type n ! 1) AND 0x7f = ucast n \<and> unat (ucast n :: byte) = unat n"
    if "n \<le> 125"
    using send_header_small [OF that] by simp
  have medium: "length (send_header type n) = 4
      \<and> (send_header type n ! 1) AND 0x7f = 126
      \<and> be_nat (drop 2 (send_header type n)) = unat n"
    if "125 < n" and "n \<le> 0xffff"
    using send_header_medium [OF that] by (simp add: length_store_u16)
  have m32: "unat (n AND 0xffffffff) = unat n mod 2 ^ 32"
  proof -
    have m: "(0xffffffff :: uint64_t) = mask 32" by (simp add: mask_eq_exp_minus_1)
    have "unat (n AND mask 32) = unat (take_bit 32 n)"
      by (simp only: take_bit_eq_mask)
    also have "\<dots> = take_bit 32 (unat n)"
      by (rule unsigned_take_bit_eq)
    also have "\<dots> = unat n mod 2 ^ 32"
      by (rule take_bit_eq_mod)
    finally show ?thesis
      by (simp only: m)
  qed
  have large: "length (send_header type n) = 10
      \<and> (send_header type n ! 1) AND 0x7f = 127
      \<and> take 4 (drop 2 (send_header type n)) = [0, 0, 0, 0]
      \<and> be_nat (drop 2 (send_header type n)) = unat (n AND 0xffffffff)
      \<and> (n < 2 ^ 32 \<longrightarrow> be_nat (drop 2 (send_header type n)) = unat n)"
    if "0xffff < n"
  proof -
    have "unat n mod 2 ^ 32 = unat n" if "n < 2 ^ 32"
      using that by (simp add: word_less_nat_alt)
    then show ?thesis
      using send_header_large [OF \<open>0xffff < n\<close>]
      by (simp add: length_store_u32 m32)
  qed
  have first: "tx (net (snd (websocket_send ws rnd type ptr n))) ! length (tx (net ws))
      = send_header type n @ send_mask_key rnd"
    if "0 < wr_left (net ws)"
  proof -
    let ?h = "send_header type n @ send_mask_key rnd"
    let ?n1 = "(net ws)\<lparr>tx := tx (net ws) @ [?h], wr_left := wr_left (net ws) - 1\<rparr>"
    have w: "net_write (net ws) ?h = (Some (of_nat (length ?h)), ?n1)"
      using that by (rule net_write_ok)
    obtain cs where "tx (snd (send_loop ptr (send_mask_key rnd) (unat n) 0 [] 0 ?n1))
                     = tx ?n1 @ cs"
      using send_loop_tx_prefix by blast
    then show ?thesis
      by (simp add: websocket_send_def Let_def w split_beta nth_append)
  qed
  show ?thesis
  proof (intro conjI impI)
    assume "n \<le> 125"
    from small [OF this]
    show "length (send_header type n) = 2"
      and "(send_header type n ! 1) AND 0x7f = ucast n"
      and "unat (ucast n :: byte) = unat n"
      and "length (send_header type n @ send_mask_key rnd) = 6"
      by (simp_all add: length_send_mask_key)
  next
    assume "125 < n \<and> n \<le> 0xffff"
    then have "125 < n" and "n \<le> 0xffff" by simp_all
    from medium [OF this]
    show "length (send_header type n) = 4"
      and "(send_header type n ! 1) AND 0x7f = 126"
      and "be_nat (drop 2 (send_header type n)) = unat n"
      and "length (send_header type n @ send_mask_key rnd) = 8"
      by (simp_all add: length_send_mask_key)
  next
    assume b: "0xffff < n"
    from large [OF this]
    show "length (send_header type n) = 10"
      and "(send_header type n ! 1) AND 0x7f = 127"
      and "take 4 (drop 2 (send_header type n)) = [0, 0, 0, 0]"
      and "be_nat (drop 2 (send_header type n)) = unat (n AND 0xffffffff)"
      and "length (send_header type n @ send_mask_key rnd) = 14"
      by (simp_all add: length_send_mask_key)
    assume "n < 2 ^ 32"
    with large [OF b] show "be_nat (drop 2 (send_header type n)) = unat n"
      by blast
  next
    assume "0 < wr_left (net ws)"
    then show "tx (net (snd (websocket_send ws rnd type ptr n))) ! length (tx (net ws))
      = send_header type n @ send_mask_key rnd"
      by (rule first)
  qed
qed

theorem send_header_tiers_witness:
  "length (send_header 2 125) = 2
   \<and> (send_header 2 125 ! 1) AND 0x7f = 125
   \<and> length (send_header 2 125 @ send_mask_key (\<lambda>i. i + 1)) = 6
   \<and> length (send_header 2 126) = 4
   \<and> (send_header 2 126 ! 1) AND 0x7f = 126
   \<and> be_nat (drop 2 (send_header 2 126)) = 126
   \<and> length (send_header 2 126 @ send_mask_key (\<lambda>i. i + 1)) = 8
   \<and> length (send_header 2 65535) = 4
   \<and> be_nat (drop 2 (send_header 2 65535)) = 65535
   \<and> length (send_header 2 65536) = 10
   \<and> (send_header 2 65536 ! 1) AND 0x7f = 127
   \<and> take 4 (drop 2 (send_header 2 65536)) = [0, 0, 0, 0]
   \<and> be_nat (drop 2 (send_header 2 65536)) = 65536
   \<and> length (send_header 2 65536 @ send_mask_key (\<lambda>i. i + 1)) = 14
   \<and> tx (net (snd (websocket_send
            \<lparr>net = \<lparr>rx = [], tx = [], rd = [], wr_left = 1\<rparr>, remaining = 0\<rparr>
            (\<lambda>i. i + 1) 8 [] 0))) ! 0
       = send_header 8 0 @ send_mask_key (\<lambda>i. i + 1)"
  using
    send_header_tiers [of 125 2 "\<lambda>i. i + 1"
      "\<lparr>net = \<lparr>rx = [], tx = [], rd = [], wr_left = 1\<rparr>, remaining = 0\<rparr>" "[]"]
    send_header_tiers [of 126 2 "\<lambda>i. i + 1"
      "\<lparr>net = \<lparr>rx = [], tx = [], rd = [], wr_left = 1\<rparr>, remaining = 0\<rparr>" "[]"]
    send_header_tiers [of 65535 2 "\<lambda>i. i + 1"
      "\<lparr>net = \<lparr>rx = [], tx = [], rd = [], wr_left = 1\<rparr>, remaining = 0\<rparr>" "[]"]
    send_header_tiers [of 65536 2 "\<lambda>i. i + 1"
      "\<lparr>net = \<lparr>rx = [], tx = [], rd = [], wr_left = 1\<rparr>, remaining = 0\<rparr>" "[]"]
    send_header_tiers [of 0 8 "\<lambda>i. i + 1"
      "\<lparr>net = \<lparr>rx = [], tx = [], rd = [], wr_left = 1\<rparr>, remaining = 0\<rparr>" "[]"]
  by simp

text \<open>The headers at the boundaries of the three tiers, for a binary frame (opcode 2).\<close>

lemma send_header_boundaries:
  "send_header 2 125 = [0x82, 0xFD]"
  "send_header 2 126 = [0x82, 0xFE, 0x00, 0x7E]"
  "send_header 2 65535 = [0x82, 0xFE, 0xFF, 0xFF]"
  "send_header 2 65536 = [0x82, 0xFF, 0, 0, 0, 0, 0, 1, 0, 0]"
  by (simp_all add: send_header_def frame_consts store_htons store_htonl store_htonl_0
      low32_mask)

subsection \<open>Send, then receive over the loopback\<close>

text \<open>
  C2. Sending the one-byte payload 41 as a text frame with the mask key 01 01 01 01 and
  receiving the written bytes over the loopback gives the opcode 1 and the length 1 back,
  but the byte 40, the masked one.
\<close>

theorem send_recv_loopback_masked:
  "websocket_send \<lparr>net = \<lparr>rx = [], tx = [], rd = [], wr_left = 2\<rparr>, remaining = 0\<rparr>
     (\<lambda>i. 1) 1 [0x41] 1
   = (Inr 1,
      \<lparr>net = \<lparr>rx = [], tx = [[0x81, 0x81, 1, 1, 1, 1], [0x40]], rd = [], wr_left = 0\<rparr>,
       remaining = 0\<rparr>)
   \<and> websocket_recv
       (loopback (snd (websocket_send
          \<lparr>net = \<lparr>rx = [], tx = [], rd = [], wr_left = 2\<rparr>, remaining = 0\<rparr>
          (\<lambda>i. 1) 1 [0x41] 1)))
       (Some 0) [0] 1
   = (Inr 1,
      \<lparr>net = \<lparr>rx = [], tx = [], rd = [2, 4, 1], wr_left = 0\<rparr>, remaining = 0\<rparr>,
      Some 1, [0x40])"
proof -
  have s: "websocket_send \<lparr>net = \<lparr>rx = [], tx = [], rd = [], wr_left = 2\<rparr>, remaining = 0\<rparr>
     (\<lambda>i. 1) 1 [0x41] 1
   = (Inr 1,
      \<lparr>net = \<lparr>rx = [], tx = [[0x81, 0x81, 1, 1, 1, 1], [0x40]], rd = [], wr_left = 0\<rparr>,
       remaining = 0\<rparr>)"
    using websocket_send_result
      [of 1 "\<lparr>net = \<lparr>rx = [], tx = [], rd = [], wr_left = 2\<rparr>, remaining = 0\<rparr>"
          "\<lambda>i. 1" 1 "[0x41]"]
    by (simp add: send_header_def send_mask_key_def rand_byte_def masked_def frame_consts
        chunks_of_last upt_conv_Cons)
  show ?thesis
    unfolding s
    by (simp add: loopback_def websocket_recv_def websocket_read_frame_hdr_def net_readn_def
        frame_consts FRAME_RSV1_def FRAME_RSV2_def FRAME_RSV3_def Let_def)
qed

lemma bit_flag_or: "j < 8 \<Longrightarrow> bit (push_bit j 1 OR (y::byte)) j"
  by (simp add: bit_simps)

lemma bit7_flag: "bit (0x80 OR (y::byte)) 7"
  using bit_flag_or [of 7 y] by simp

lemma opcode_bits:
  fixes t :: c_int
  assumes "j \<ge> k" and "j < 8"
  shows "bit (push_bit j 1 OR ucast (t AND mask k) :: byte) i
         \<longleftrightarrow> i = j \<or> (i < k \<and> bit t i)"
  using assms by (auto simp: bit_simps)

lemma opcode_low:
  fixes t :: c_int
  assumes "j \<ge> k" and "j < 8"
  shows "(push_bit j 1 OR ucast (t AND mask k) :: byte) AND mask k = ucast (t AND mask k)"
  using assms by (intro bit_word_eqI) (auto simp: bit_simps)

lemma opcode_back:
  fixes t :: c_int
  assumes "k \<le> 8"
  shows "(ucast (ucast (t AND mask k) :: byte) :: c_int) = t AND mask k"
  using assms by (intro bit_word_eqI) (auto simp: bit_simps)

lemma send_b0:
  fixes t :: c_int
  assumes "t < 16"
  shows "bit (0x80 OR ucast t :: byte) 7"
    and "\<not> bit (0x80 OR ucast t :: byte) 4 \<and> \<not> bit (0x80 OR ucast t :: byte) 5
         \<and> \<not> bit (0x80 OR ucast t :: byte) 6"
    and "(ucast ((0x80 OR ucast t :: byte) AND 0xf) :: c_int) = t"
proof -
  have m: "t AND mask 4 = t"
    using assms less_mask_eq [of t 4] by simp
  show "bit (0x80 OR ucast t :: byte) 7"
    by (rule bit7_flag)
  have b: "bit (0x80 OR ucast t :: byte) i \<longleftrightarrow> i = 7 \<or> (i < 4 \<and> bit t i)" for i
    using opcode_bits [of 4 7 t i] by (simp add: m)
  show "\<not> bit (0x80 OR ucast t :: byte) 4 \<and> \<not> bit (0x80 OR ucast t :: byte) 5
         \<and> \<not> bit (0x80 OR ucast t :: byte) 6"
    by (simp add: b)
  have m15: "t AND 15 = t"
    using m by (simp add: mask_eq_exp_minus_1)
  have "(0x80 OR ucast t :: byte) AND 0xf = ucast t"
    using opcode_low [of 4 7 t] by (simp add: mask_eq_exp_minus_1 m15)
  then show "(ucast ((0x80 OR ucast t :: byte) AND 0xf) :: c_int) = t"
    using opcode_back [of 4 t] by (simp add: mask_eq_exp_minus_1 m15)
qed

text \<open>The second header byte and the extended length that \<open>send_header\<close> writes decode
  to the length that was sent, as long as it fits 32 bits.\<close>

lemma send_header_decodes:
  fixes n :: size_t
  assumes "n < 2 ^ 32"
  shows "\<exists>b1 ext. send_header type n = (0x80 OR ucast type) # b1 # ext
           \<and> bit b1 7 \<and> length ext = ext_len b1
           \<and> (\<forall>more. frame_len b1 (ext @ more) = n)"
proof (cases "n \<le> 125")
  case True
  let ?b1 = "0x80 OR ucast n :: byte"
  have h: "send_header type n = [0x80 OR ucast type, ?b1]"
    by (rule send_header_small(1) [OF True])
  have l: "?b1 AND 0x7f = ucast n"
    using send_header_small(2) [OF True, of type] by (simp add: h)
  have u: "unat (ucast n :: byte) = unat n"
    by (rule send_header_small(3) [OF True])
  have le: "unat n \<le> 125" using True by (simp add: word_le_nat_alt)
  have "(ucast n :: byte) \<noteq> 126" and "(ucast n :: byte) \<noteq> 127"
    using u le by (auto simp: word_unat_eq_iff)
  moreover have "(ucast (ucast n :: byte) :: uint64_t) = n"
    using u by (simp add: word_unat_eq_iff unat_ucast_up)
  ultimately have "ext_len ?b1 = 0" and "\<forall>more. frame_len ?b1 ([] @ more) = n"
    by (simp_all add: ext_len_def frame_len_def l)
  then show ?thesis
    using h bit7_flag [of "ucast n"] by auto
next
  case False
  then have gt: "125 < n" by simp
  show ?thesis
  proof (cases "n \<le> 0xffff")
    case True
    let ?ext = "store_u16 (htons (ucast n))"
    have h: "send_header type n = [0x80 OR ucast type, 0xFE] @ ?ext"
      by (rule send_header_medium(1) [OF gt True])
    have b: "be_nat (drop 2 (send_header type n)) = unat n"
      by (rule send_header_medium(2) [OF gt True])
    have be: "be_nat ?ext = unat n" using b by (simp add: h)
    have "frame_len 0xFE (?ext @ more) = n" for more
      by (simp add: frame_len_def length_store_u16 be)
    moreover have "ext_len 0xFE = 2" by (simp add: ext_len_def)
    moreover have "bit (0xFE::byte) 7" using bit7_flag [of "0x7E"] by simp
    ultimately show ?thesis
      using h by (auto simp: length_store_u16)
  next
    case False
    then have big: "0xffff < n" by simp
    let ?ext = "[0, 0, 0, 0] @ store_u32 (htonl (ucast n))"
    have h: "send_header type n = [0x80 OR ucast type, 0xFF] @ ?ext"
      using send_header_large(1) [OF big, of type] by simp
    have b: "be_nat (drop 2 (send_header type n)) = unat n mod 2 ^ 32"
      by (rule send_header_large(2) [OF big])
    have "unat n < 2 ^ 32" using assms by (simp add: word_less_nat_alt)
    then have be: "be_nat ?ext = unat n" using b by (simp add: h)
    have "frame_len 0xFF (?ext @ more) = n" for more
      using be by (simp add: frame_len_def length_store_u32)
    moreover have "ext_len 0xFF = 8" by (simp add: ext_len_def)
    moreover have "bit (0xFF::byte) 7" using bit7_flag [of "0x7F"] by simp
    ultimately show ?thesis
      using h by (auto simp: length_store_u32)
  qed
qed

lemma masked_zero_key:
  assumes "\<forall>i<4. rnd i mod 255 = 0" and "n = length ptr"
  shows "masked (send_mask_key rnd) ptr 0 n = ptr"
proof -
  have "send_mask_key rnd ! (j mod 4) = 0" for j
    using assms(1) by (simp add: send_mask_key_def rand_byte_def)
  then have "masked (send_mask_key rnd) ptr 0 n = map (\<lambda>j. ptr ! j) [0..<length ptr]"
    by (simp add: masked_def assms(2))
  then show ?thesis
    by (simp add: map_nth)
qed

lemma loopback_recv:
  assumes "unat n = length ptr" and "n < 2 ^ 31" and "type < 16"
    and "rx (net ws) = []" and "tx (net ws) = []" and "remaining ws = 0"
    and "1 + (unat n + 2047) div 2048 \<le> wr_left (net ws)"
    and "n \<le> cap"
  shows "\<exists>ws'. websocket_recv (loopback (snd (websocket_send ws rnd type ptr n))) (Some t0) buf cap
           = (Inr (ucast n), ws', Some type,
              masked (send_mask_key rnd) ptr 0 (unat n) @ drop (unat n) buf)
         \<and> remaining ws' = 0 \<and> rx (net ws') = []"
proof -
  let ?K = "send_mask_key rnd"
  let ?M = "masked ?K ptr 0 (unat n)"
  have n31: "unat n < 2 ^ 31"
    using assms(2) by (simp add: word_less_nat_alt)
  then have "unat n < 2 ^ 32"
    by simp
  then have n32: "n < 2 ^ 32"
    by (simp add: word_less_nat_alt)
  obtain b1 ext where h: "send_header type n = (0x80 OR ucast type) # b1 # ext"
    and b1: "bit b1 7" and ext: "length ext = ext_len b1"
    and fl: "\<And>more. frame_len b1 (ext @ more) = n"
    using send_header_decodes [OF n32, of type] by blast
  let ?b0 = "0x80 OR ucast type :: byte"
  let ?rest = "ext @ ?K @ ?M"
  let ?lb = "loopback (snd (websocket_send ws rnd type ptr n))"
  have rx: "rx (net ?lb) = [] @ ?b0 # b1 # ?rest"
    by (simp add: websocket_send_result [OF assms(7)] loopback_def assms(4,5) h
        concat_chunks_of)
  have rem: "remaining ?lb = 0"
    by (simp add: websocket_send_result [OF assms(7)] loopback_def assms(6))
  have j: "length ([]::byte list) = unat (remaining ?lb)"
    by (simp add: rem)
  have m: "min (unat cap) (unat n) = unat n"
    using assms(8) by (simp add: word_le_nat_alt)
  have fits: "ext_len b1 + (if bit b1 7 then 4 else 0)
              + min (unat cap) (unat (frame_len b1 ?rest)) \<le> length ?rest"
    by (simp add: fl b1 m ext length_send_mask_key length_masked)
  have small: "min (unat cap) (unat (frame_len b1 ?rest)) < 2 ^ 31"
    using n31 by (simp add: fl m)
  have d: "take (unat n) (drop (ext_len b1 + 4) ?rest) = ?M"
    by (simp add: ext [symmetric] length_send_mask_key length_masked)
  have z: "n - of_nat (unat n) = 0"
    by simp
  have e: "drop (ext_len b1 + 4 + unat n) ?rest = []"
    by (simp add: ext [symmetric] length_send_mask_key length_masked)
  show ?thesis
    by (subst recv_wire [OF rx j send_b0(1,2) [OF assms(3)] fits small])
       (simp add: fl b1 m z send_b0(3) [OF assms(3)] ext [symmetric] length_send_mask_key
          length_masked)
qed

text \<open>
  X2. Over a loopback transport, sending a payload of \<open>n < 2 ^ 31\<close> bytes with an opcode
  below 16 and receiving the written bytes into a buffer of at least \<open>n\<close> bytes gives
  back the opcode and the length, and as payload the masked bytes: each byte XORed with
  byte \<open>i mod 4\<close> of the mask key. The original payload comes back when the four key
  bytes are zero. This holds for every \<open>n\<close>, across the three header sizes.
\<close>

theorem loopback_returns_masked_payload:
  assumes "unat n = length ptr" and "n < 2 ^ 31" and "type < 16"
    and "rx (net ws) = []" and "tx (net ws) = []" and "remaining ws = 0"
    and "1 + (unat n + 2047) div 2048 \<le> wr_left (net ws)"
    and "n \<le> cap"
  shows
    "fst (websocket_recv (loopback (snd (websocket_send ws rnd type ptr n))) (Some t0) buf cap)
       = Inr (ucast n)
     \<and> sint (ucast n :: c_int) = int (unat n)
     \<and> fst (snd (snd (websocket_recv (loopback (snd (websocket_send ws rnd type ptr n)))
                          (Some t0) buf cap)))
       = Some type
     \<and> snd (snd (snd (websocket_recv (loopback (snd (websocket_send ws rnd type ptr n)))
                          (Some t0) buf cap)))
       = masked (send_mask_key rnd) ptr 0 (unat n) @ drop (unat n) buf
     \<and> remaining (fst (snd (websocket_recv (loopback (snd (websocket_send ws rnd type ptr n)))
                                (Some t0) buf cap)))
       = 0
     \<and> ((\<forall>i<4. rnd i mod 255 = 0) \<longrightarrow> masked (send_mask_key rnd) ptr 0 (unat n) = ptr)"
proof -
  obtain ws' where
    "websocket_recv (loopback (snd (websocket_send ws rnd type ptr n))) (Some t0) buf cap
       = (Inr (ucast n), ws', Some type,
          masked (send_mask_key rnd) ptr 0 (unat n) @ drop (unat n) buf)"
    and "remaining ws' = 0"
    using loopback_recv [OF assms] by blast
  moreover have "unat n < 2 ^ 31"
    using assms(2) by (simp add: word_less_nat_alt)
  then have "sint (ucast n :: c_int) = int (unat n)"
    using sint_count [of "unat n"] by simp
  ultimately show ?thesis
    using masked_zero_key [of rnd "unat n" ptr] assms(1) by simp
qed

theorem loopback_returns_masked_payload_witness:
  "snd (snd (snd (websocket_recv
      (loopback (snd (websocket_send
         \<lparr>net = \<lparr>rx = [], tx = [], rd = [], wr_left = 2\<rparr>, remaining = 0\<rparr>
         (\<lambda>i. i + 1) 2 [0x48, 0x65, 0x6c] 3)))
      (Some 0) [0, 0, 0, 0] 4)))
   = [0x49, 0x67, 0x6f, 0]
   \<and> snd (snd (snd (websocket_recv
      (loopback (snd (websocket_send
         \<lparr>net = \<lparr>rx = [], tx = [], rd = [], wr_left = 2\<rparr>, remaining = 0\<rparr>
         (\<lambda>i. 255) 2 [0x48, 0x65, 0x6c] 3)))
      (Some 0) [0, 0, 0, 0] 4)))
   = [0x48, 0x65, 0x6c, 0]"
proof -
  let ?ws = "\<lparr>net = \<lparr>rx = [], tx = [], rd = [], wr_left = 2\<rparr>, remaining = 0\<rparr>"
  have a: "masked (send_mask_key Suc) [0x48, 0x65, 0x6c] 0 3 = [0x49, 0x67, 0x6f]"
    by (simp add: masked_def send_mask_key_def rand_byte_def upt_conv_Cons)
  show ?thesis
    using
      loopback_returns_masked_payload
        [of 3 "[0x48, 0x65, 0x6c]" 2 ?ws 4 "\<lambda>i. i + 1" 0 "[0, 0, 0, 0]"]
      loopback_returns_masked_payload
        [of 3 "[0x48, 0x65, 0x6c]" 2 ?ws 4 "\<lambda>i. 255" 0 "[0, 0, 0, 0]"]
    by (simp add: a)
qed

text \<open>The masking scheme is an involution: masking the masked payload again with the same
  key and the same index scheme gives the payload back, for every key and every length.\<close>

lemma masked_involution:
  "masked mask_key (masked mask_key ptr 0 (length ptr)) 0 (length ptr) = ptr"
proof -
  have "masked mask_key (masked mask_key ptr 0 (length ptr)) 0 (length ptr)
        = map (\<lambda>j. ptr ! j) [0..<length ptr]"
    by (simp add: masked_def xor.assoc)
  then show ?thesis
    by (simp add: map_nth)
qed

subsection \<open>The handshake's status check\<close>

lemma length_status_line: "length status_line = 32"
  by (simp add: status_line_def bytes_of_def)

lemma status_line_no_nul: "0 \<notin> set status_line"
  by (simp add: status_line_def bytes_of_def)

text \<open>Comparing the first 32 bytes of the zero-padded buffer with the status line is
  comparing the first 32 bytes of the response with it.\<close>

lemma status_prefix_iff:
  assumes "length resp \<le> 4095"
  shows "(take 32 (resp @ replicate (4096 - length resp) 0) = status_line)
         = (take 32 resp = status_line)"
proof (cases "32 \<le> length resp")
  case True
  then show ?thesis by simp
next
  case False
  then have short: "length resp < 32" by simp
  have "take 32 resp \<noteq> status_line"
    using short length_status_line by (metis length_take min.absorb1 less_imp_le_nat nat_neq_iff)
  moreover have "take 32 (resp @ replicate (4096 - length resp) 0) \<noteq> status_line"
  proof
    assume eq: "take 32 (resp @ replicate (4096 - length resp) 0) = status_line"
    have "take 32 (resp @ replicate (4096 - length resp) 0)
          = resp @ replicate (32 - length resp) 0"
      using short assms by (simp add: min_def)
    moreover have "0 \<in> set (resp @ replicate (32 - length resp) (0::byte))"
      using short by simp
    ultimately have "0 \<in> set status_line"
      using eq by metis
    then show False
      using status_line_no_nul by simp
  qed
  ultimately show ?thesis by simp
qed

lemma net_read_length: "net_read nt n = (Some bs, n2) \<Longrightarrow> length bs \<le> n"
  by (auto simp: net_read_def split: if_splits)

text \<open>
  C8. When the key is generated, the request is built and written, and a response is
  read: if the response does not begin with the 32 bytes
  \<open>HTTP/1.1 101 Switching Protocols\<close>, \<open>websocket_handshake\<close> fails with
  \<open>HandshakeRejected\<close>, and does so whatever the digest function is, so the accept value
  plays no part in the result. Conversely, each outcome of the accept-key check (a missing
  header, a mismatch, success) implies that the response began with the status line.
\<close>

theorem handshake_status_first:
  assumes "generate_websocket_key b64 rnd 128 = Inr ws_key"
    and "length (handshake_request path host ws_key) < 4096"
    and "net_write (net ws) (handshake_request path host ws_key) = (Some r, n1)"
    and "net_read n1 4095 = (Some resp, n2)"
  shows "(take 32 resp \<noteq> status_line \<longrightarrow>
            (\<forall>sha. websocket_handshake b64 sha rnd ws host path
                   = (Inl HandshakeRejected, ws\<lparr>net := n2\<rparr>)))
       \<and> (fst (websocket_handshake b64 sha1 rnd ws host path)
              \<in> {Inl MissingAcceptHeader, Inl AcceptMismatch, Inr 0}
            \<longrightarrow> take 32 resp = status_line)"
proof -
  have ne: "length (handshake_request path host ws_key) \<noteq> 0"
    by (simp add: handshake_request_def bytes_of_def)
  have len: "length resp \<le> 4095"
    using assms(4) by (rule net_read_length)
  have rej: "websocket_handshake b64 sha rnd ws host path
             = (Inl HandshakeRejected, ws\<lparr>net := n2\<rparr>)"
    if "take 32 resp \<noteq> status_line" for sha
    using that assms ne status_prefix_iff [OF len]
    by (simp add: websocket_handshake_def Let_def)
  have "take 32 resp = status_line"
    if "fst (websocket_handshake b64 sha1 rnd ws host path)
          \<in> {Inl MissingAcceptHeader, Inl AcceptMismatch, Inr 0}"
  proof (rule ccontr)
    assume "take 32 resp \<noteq> status_line"
    from rej [OF this, of sha1] that show False by simp
  qed
  with rej show ?thesis by blast
qed

theorem handshake_status_first_witness:
  "websocket_handshake (\<lambda>dlen src. Some [0x41, 0x42]) (\<lambda>msg. []) (\<lambda>i. i)
     \<lparr>net = \<lparr>rx = bytes_of ''HTTP/1.1 400 Bad Request'', tx = [], rd = [], wr_left = 1\<rparr>,
      remaining = 0\<rparr> ''h'' ''/''
   = (Inl HandshakeRejected,
      \<lparr>net = \<lparr>rx = [], tx = [handshake_request ''/'' ''h'' [0x41, 0x42]], rd = [],
               wr_left = 0\<rparr>,
       remaining = 0\<rparr>)"
proof -
  let ?nt = "\<lparr>rx = bytes_of ''HTTP/1.1 400 Bad Request'', tx = [], rd = [], wr_left = 1\<rparr>"
  let ?n1 = "\<lparr>rx = bytes_of ''HTTP/1.1 400 Bad Request'',
              tx = [handshake_request ''/'' ''h'' [0x41, 0x42]], rd = [], wr_left = 0\<rparr>"
  let ?n2 = "\<lparr>rx = [], tx = [handshake_request ''/'' ''h'' [0x41, 0x42]], rd = [],
              wr_left = 0\<rparr>"
  have k: "generate_websocket_key (\<lambda>dlen src. Some [0x41, 0x42]) (\<lambda>i. i) 128 = Inr [0x41, 0x42]"
    by (simp add: generate_websocket_key_def)
  have l: "length (handshake_request ''/'' ''h'' [0x41, 0x42]) < 4096"
    by (simp add: handshake_request_def bytes_of_def cstr_def crlf_def WEBSOCKET_VERSION_def)
  have w: "net_write (net \<lparr>net = ?nt, remaining = 0\<rparr>)
             (handshake_request ''/'' ''h'' [0x41, 0x42])
           = (Some (of_nat (length (handshake_request ''/'' ''h'' [0x41, 0x42]))), ?n1)"
    by (simp add: net_write_def)
  have r: "net_read ?n1 4095 = (Some (bytes_of ''HTTP/1.1 400 Bad Request''), ?n2)"
    by (simp add: net_read_def bytes_of_def)
  have p: "take 32 (bytes_of ''HTTP/1.1 400 Bad Request'') \<noteq> status_line"
    by (simp add: status_line_def bytes_of_def)
  from handshake_status_first [OF k l w r, of "\<lambda>msg. []"] p
  show ?thesis by simp
qed

subsection \<open>Where the random bytes go\<close>

lemma key_nonce_bytes:
  "key_nonce rnd = map (\<lambda>i. of_nat (rnd i mod 255)) [0..<16]"
  by (simp add: key_nonce_def rand_byte_def)

lemma send_mask_key_bytes:
  "send_mask_key rnd = map (\<lambda>i. of_nat (rnd i mod 255)) [0..<4]"
  by (simp add: send_mask_key_def rand_byte_def)

lemma send_first_write:
  assumes "0 < wr_left (net ws)"
  shows "tx (net (snd (websocket_send ws rnd type ptr n))) ! length (tx (net ws))
         = send_header type n @ send_mask_key rnd"
proof -
  let ?h = "send_header type n @ send_mask_key rnd"
  let ?n1 = "(net ws)\<lparr>tx := tx (net ws) @ [?h], wr_left := wr_left (net ws) - 1\<rparr>"
  have w: "net_write (net ws) ?h = (Some (of_nat (length ?h)), ?n1)"
    using assms by (rule net_write_ok)
  obtain r n2 where l: "send_loop ptr (send_mask_key rnd) (unat n) 0 [] 0 ?n1 = (r, n2)"
    by (cases "send_loop ptr (send_mask_key rnd) (unat n) 0 [] 0 ?n1")
  obtain cs where c: "tx (snd (send_loop ptr (send_mask_key rnd) (unat n) 0 [] 0 ?n1)) = tx ?n1 @ cs"
    using send_loop_tx_prefix by blast
  have "tx n2 = tx ?n1 @ cs"
    using c by (simp only: l snd_conv)
  then have "tx n2 = tx (net ws) @ ?h # cs"
    by simp
  moreover have "websocket_send ws rnd type ptr n = (r, ws\<lparr>net := n2\<rparr>)"
    unfolding websocket_send_def Let_def
    by (simp only: w l prod.case option.case)
  ultimately show ?thesis
    by simp
qed

lemma handshake_first_write:
  assumes "b64 128 (key_nonce rnd) = Some key"
    and "0 < length (handshake_request path host key)"
    and "length (handshake_request path host key) < 4096"
    and "0 < wr_left (net ws)"
  shows "tx (net (snd (websocket_handshake b64 sha1 rnd ws host path))) ! length (tx (net ws))
         = handshake_request path host key"
proof -
  let ?req = "handshake_request path host key"
  let ?n1 = "(net ws)\<lparr>tx := tx (net ws) @ [?req], wr_left := wr_left (net ws) - 1\<rparr>"
  have w: "net_write (net ws) ?req = (Some (of_nat (length ?req)), ?n1)"
    using assms(4) by (rule net_write_ok)
  have g: "generate_websocket_key b64 rnd 128 = Inr key"
    by (simp add: generate_websocket_key_def assms(1))
  have r: "tx (snd (net_read ?n1 4095)) = tx ?n1"
    by (simp add: net_read_def)
  obtain resp n2 where n2: "net_read ?n1 4095 = (resp, n2)"
    by (cases "net_read ?n1 4095")
  with r have t: "tx n2 = tx (net ws) @ [?req]" by simp
  have b: "\<not> (length ?req = 0 \<or> length ?req \<ge> 4096)"
    using assms(2,3) by simp
  have "\<exists>e. websocket_handshake b64 sha1 rnd ws host path = (e, ws\<lparr>net := n2\<rparr>)"
    unfolding websocket_handshake_def Let_def
    by (simp only: g sum.case b if_False w n2 prod.case option.case)
       (simp split: option.split sum.split)
  then show ?thesis
    using t by auto
qed

lemma handshake_request_nonempty: "0 < length (handshake_request path host key)"
  by (simp add: handshake_request_def bytes_of_def)

text \<open>
  C10. Every random byte of this layer is a result of the random source reduced modulo 255.
  \<open>rnd i\<close> is the \<open>i\<close>-th result of \<^verbatim>\<open>xrand()\<close> in a call.

  \<^item> \<open>generate_websocket_key\<close> hands the encoder, whatever the encoder is, the 16 bytes
    \<open>rnd i mod 255\<close>, and the key is what the encoder makes of them; the handshake writes
    the request built from that key.
  \<^item> The first write of \<open>websocket_send\<close> is the base header followed by the 4 bytes
    \<open>rnd i mod 255\<close>, and the payload written after it is masked with these 4 bytes.
  \<^item> The byte 255 occurs in neither; as a function of a source byte, the reduction sends
    both 0 and 255 to 0 and nothing to 255, so a uniform source byte does not give a uniform
    result.
\<close>

theorem random_bytes_mod_255:
  "generate_websocket_key b64 rnd sz =
     (case b64 sz (map (\<lambda>i. of_nat (rnd i mod 255)) [0..<16]) of
        None \<Rightarrow> Inl Base64Error
      | Some key \<Rightarrow> Inr key)
   \<and> (b64 128 (map (\<lambda>i. of_nat (rnd i mod 255)) [0..<16]) = Some key
      \<and> length (handshake_request path host key) < 4096
      \<and> 0 < wr_left (net ws) \<longrightarrow>
      tx (net (snd (websocket_handshake b64 sha1 rnd ws host path))) ! length (tx (net ws))
      = handshake_request path host key)
   \<and> (0 < wr_left (net ws) \<longrightarrow>
      tx (net (snd (websocket_send ws rnd type ptr n))) ! length (tx (net ws))
      = send_header type n @ map (\<lambda>i. of_nat (rnd i mod 255)) [0..<4])
   \<and> (1 + (unat n + 2047) div 2048 \<le> wr_left (net ws) \<longrightarrow>
      tx (net (snd (websocket_send ws rnd type ptr n)))
      = tx (net ws) @ [send_header type n @ map (\<lambda>i. of_nat (rnd i mod 255)) [0..<4]]
          @ chunks_of 2048 (masked (map (\<lambda>i. of_nat (rnd i mod 255)) [0..<4]) ptr 0 (unat n)))
   \<and> 255 \<notin> set (map (\<lambda>i. of_nat (rnd i mod 255)) [0..<16] :: byte list)
   \<and> 255 \<notin> set (map (\<lambda>i. of_nat (rnd i mod 255)) [0..<4] :: byte list)
   \<and> unat (rand_byte x) = x mod 255
   \<and> {x::byte. rand_byte (unat x) = v}
       = (if v = 0 then {0, 255} else if v = 255 then {} else {v})"
proof -
  let ?N = "map (\<lambda>i. of_nat (rnd i mod 255)) [0..<16] :: byte list"
  let ?K = "map (\<lambda>i. of_nat (rnd i mod 255)) [0..<4] :: byte list"
  have N: "key_nonce rnd = ?N" by (rule key_nonce_bytes)
  have K: "send_mask_key rnd = ?K" by (rule send_mask_key_bytes)
  have 1: "generate_websocket_key b64 rnd sz =
     (case b64 sz ?N of None \<Rightarrow> Inl Base64Error | Some key \<Rightarrow> Inr key)"
    by (simp only: generate_websocket_key_def N)
  have 2: "tx (net (snd (websocket_handshake b64 sha1 rnd ws host path))) ! length (tx (net ws))
      = handshake_request path host key"
    if "b64 128 ?N = Some key \<and> length (handshake_request path host key) < 4096
        \<and> 0 < wr_left (net ws)"
  proof (rule handshake_first_write)
    show "b64 128 (key_nonce rnd) = Some key" using that by (simp only: N)
    show "0 < length (handshake_request path host key)" by (rule handshake_request_nonempty)
    show "length (handshake_request path host key) < 4096" using that by simp
    show "0 < wr_left (net ws)" using that by simp
  qed
  have 3: "tx (net (snd (websocket_send ws rnd type ptr n))) ! length (tx (net ws))
      = send_header type n @ ?K" if "0 < wr_left (net ws)"
    using send_first_write [OF that, of rnd type ptr n] by (simp only: K)
  have 4: "tx (net (snd (websocket_send ws rnd type ptr n)))
      = tx (net ws) @ [send_header type n @ ?K] @ chunks_of 2048 (masked ?K ptr 0 (unat n))"
    if "1 + (unat n + 2047) div 2048 \<le> wr_left (net ws)"
  proof -
    have "tx (net (snd (websocket_send ws rnd type ptr n)))
      = tx (net ws) @ [send_header type n @ send_mask_key rnd]
          @ chunks_of 2048 (masked (send_mask_key rnd) ptr 0 (unat n))"
      by (simp add: websocket_send_result [OF that])
    then show ?thesis by (simp only: K)
  qed
  have 5: "255 \<notin> set ?N"
    using rand_byte_neq_255 by (auto simp: rand_byte_def)
  have 6: "255 \<notin> set ?K"
    using rand_byte_neq_255 by (auto simp: rand_byte_def)
  have 7: "{x::byte. rand_byte (unat x) = v}
        = (if v = 0 then {0, 255} else if v = 255 then {} else {v})"
    by (auto simp: rand_byte_unat)
  from 1 2 3 4 5 6 7 unat_rand_byte [of x] show ?thesis
    by blast
qed

theorem random_bytes_mod_255_witness:
  "generate_websocket_key (\<lambda>sz src. Some src) (\<lambda>i. 254 + i) 128
     = Inr [254, 0, 1, 2, 3, 4, 5, 6, 7, 8, 9, 10, 11, 12, 13, 14]
   \<and> tx (net (snd (websocket_handshake (\<lambda>sz src. Some src) (\<lambda>m. []) (\<lambda>i. 254 + i)
         \<lparr>net = \<lparr>rx = [], tx = [], rd = [], wr_left = 2\<rparr>, remaining = 0\<rparr> ''h'' ''/''))) ! 0
     = handshake_request ''/'' ''h'' [254, 0, 1, 2, 3, 4, 5, 6, 7, 8, 9, 10, 11, 12, 13, 14]
   \<and> tx (net (snd (websocket_send
         \<lparr>net = \<lparr>rx = [], tx = [], rd = [], wr_left = 2\<rparr>, remaining = 0\<rparr>
         (\<lambda>i. 254 + i) 1 [0x41] 1)))
     = [[0x81, 0x81, 254, 0, 1, 2], [0xBF]]
   \<and> {x::byte. rand_byte (unat x) = 0} = {0, 255}"
proof -
  let ?ws = "\<lparr>net = \<lparr>rx = [], tx = [], rd = [], wr_left = 2\<rparr>, remaining = 0\<rparr>"
  let ?key = "[254, 0, 1, 2, 3, 4, 5, 6, 7, 8, 9, 10, 11, 12, 13, 14] :: byte list"
  note t = random_bytes_mod_255
      [where ?b64.0 = "\<lambda>sz src. Some src" and rnd = "\<lambda>i. 254 + i" and sz = 128 and key = ?key
         and path = "''/''" and host = "''h''" and ws = ?ws and ?sha1.0 = "\<lambda>m. []"
         and type = 1 and ptr = "[0x41]" and n = 1 and x = 255 and v = 0]
  have n: "map (\<lambda>i. of_nat ((254 + i) mod 255)) [0..<16] = ?key"
    by (simp add: upt_conv_Cons)
  have k: "map (\<lambda>i. of_nat ((254 + i) mod 255)) [0..<4] = ([254, 0, 1, 2] :: byte list)"
    by (simp add: upt_conv_Cons)
  have l: "length (handshake_request ''/'' ''h'' ?key) < 4096"
    by (simp add: handshake_request_def bytes_of_def cstr_def crlf_def WEBSOCKET_VERSION_def)
  have a: "generate_websocket_key (\<lambda>sz src. Some src) (\<lambda>i. 254 + i) 128 = Inr ?key"
    using t [THEN conjunct1] by (simp only: n option.case)
  have b: "tx (net (snd (websocket_handshake (\<lambda>sz src. Some src) (\<lambda>m. []) (\<lambda>i. 254 + i)
         ?ws ''h'' ''/''))) ! 0 = handshake_request ''/'' ''h'' ?key"
    using t [THEN conjunct2, THEN conjunct1] l by (simp add: n)
  have c: "tx (net (snd (websocket_send ?ws (\<lambda>i. 254 + i) 1 [0x41] 1)))
     = [[0x81, 0x81, 254, 0, 1, 2], [0xBF]]"
    using t [THEN conjunct2, THEN conjunct2, THEN conjunct2, THEN conjunct1]
    by (simp add: k send_header_def frame_consts masked_def chunks_of_last)
  have d: "{x::byte. rand_byte (unat x) = 0} = {0, 255}"
    using t [THEN conjunct2, THEN conjunct2, THEN conjunct2, THEN conjunct2,
             THEN conjunct2, THEN conjunct2, THEN conjunct2]
    by simp
  from a b c d show ?thesis by (intro conjI)
qed

end
